theory Spec2Isabelle
  imports Main "HOL-Library.FSet" "HOL-Library.List_Lexorder" "HOL-Library.Char_ord"
begin

section \<open>Python values, exceptions and the pages of the site\<close>

text \<open>
  The exceptions that the functions of \<^verbatim>\<open>scrapper.py\<close> can raise: the built-in ones
  and the four custom classes of the module.
\<close>

datatype pyerr =
    TypeError | KeyError | IndexError | AttributeError | ValueError | RecursionError
  | IncorrectURLError | NumberOfArticlesOutOfRangeError
  | IncorrectNumberOfArticlesError | UnknownConfigError

text \<open>How a call ends: it returns, or an exception leaves it.\<close>

datatype outcome = Return | Raise pyerr

text \<open>
  A page body is kept as what the CSS selectors of the source find in it, in document
  order:
  \<^item> \<open>news\<close>: the anchors of \<^verbatim>\<open>div.col-md-9 div.col-md-6 h2 a\<close>, each as its
    \<^verbatim>\<open>href\<close> attribute (\<open>None\<close> for an anchor without one);
  \<^item> \<open>next_page\<close>: the element of \<^verbatim>\<open>ul.pagination li:has(span.current) + li a\<close>
    (\<open>None\<close> when there is none), as its \<^verbatim>\<open>href\<close> attribute;
  \<^item> \<open>paragraphs\<close>: the texts of \<^verbatim>\<open>.entry-content > p\<close>;
  \<^item> \<open>h1\<close>, \<open>autor\<close>: the text of the first \<^verbatim>\<open>h1\<close> and \<^verbatim>\<open>li.autor\<close>;
  \<^item> \<open>entry_date\<close>: the first \<^verbatim>\<open>time.entry-date\<close>, as its \<^verbatim>\<open>datetime\<close> attribute;
  \<^item> \<open>categories\<close>: the texts of \<^verbatim>\<open>a[rel^="category"]\<close>.
\<close>

record html =
  news :: "string option list"
  next_page :: "string option option"
  paragraphs :: "string list"
  h1 :: "string option"
  autor :: "string option"
  entry_date :: "string option option"
  categories :: "string list"

text \<open>
  The values that reach \<^verbatim>\<open>BeautifulSoup(page, 'lxml')\<close> in this module: \<^verbatim>\<open>None\<close>, a
  \<^verbatim>\<open>bool\<close>, or the text of a page.
\<close>

datatype markup = PNone | PBool bool | PStr html

text \<open>
  The web is a function from URLs to page bodies, \<open>None\<close> where the request fails.
  \<^verbatim>\<open>fetch_page\<close> catches the request's exception, logs it and falls off its end, so it
  returns \<^verbatim>\<open>None\<close> there.
\<close>

type_synonym web = "string \<Rightarrow> html option"

definition fetch_page :: "web \<Rightarrow> string \<Rightarrow> markup" where
  "fetch_page w url = (case w url of None \<Rightarrow> PNone | Some body \<Rightarrow> PStr body)"

text \<open>
  \<^verbatim>\<open>BeautifulSoup(markup, 'lxml')\<close>: the library parses any text; on a value that is
  neither text nor a file it raises \<^verbatim>\<open>TypeError\<close> (it takes \<^verbatim>\<open>len(markup)\<close>).
\<close>

definition BeautifulSoup :: "markup \<Rightarrow> pyerr + html" where
  "BeautifulSoup m = (case m of PStr body \<Rightarrow> Inr body | _ \<Rightarrow> Inl TypeError)"

text \<open>
  The slice \<^verbatim>\<open>xs[:n]\<close> of Python: the first \<open>n\<close> elements, and for a negative \<open>n\<close>
  all but the last \<open>-n\<close>.
\<close>

definition slice_to :: "'a list \<Rightarrow> int \<Rightarrow> 'a list" where
  "slice_to xs n = (if 0 \<le> n then take (nat n) xs else take (length xs - nat (- n)) xs)"

section \<open>Crawler\<close>

record crawler =
  seed_urls :: "string list"
  max_articles :: int
  max_articles_per_seed :: int
  urls :: "string fset"

definition Crawler :: "string list \<Rightarrow> int \<Rightarrow> int \<Rightarrow> crawler" where
  "Crawler seeds m k =
     \<lparr>seed_urls = seeds, max_articles = m, max_articles_per_seed = k, urls = {||}\<rparr>"

text \<open>\<^verbatim>\<open>[article.attrs['href'] for article in news]\<close>: a missing attribute is a \<^verbatim>\<open>KeyError\<close>.\<close>

fun hrefs :: "string option list \<Rightarrow> pyerr + string list" where
  "hrefs [] = Inr []"
| "hrefs (None # as) = Inl KeyError"
| "hrefs (Some h # as) = (case hrefs as of Inl e \<Rightarrow> Inl e | Inr hs \<Rightarrow> Inr (h # hs))"

definition extract_url :: "html \<Rightarrow> pyerr + string list" where
  "extract_url article_bs = hrefs (news article_bs)"

definition process_seed :: "crawler \<Rightarrow> markup \<Rightarrow> pyerr + string list" where
  "process_seed c page =
     (case BeautifulSoup page of
        Inl e \<Rightarrow> Inl e
      | Inr soup \<Rightarrow>
         (case extract_url soup of
            Inl e \<Rightarrow> Inl e
          | Inr found \<Rightarrow>
              let seed_articles = slice_to found (max_articles_per_seed c);
                  links = slice_to seed_articles (max_articles c - int (fcard (urls c)))
              in Inr links))"

definition update_urls :: "crawler \<Rightarrow> string list \<Rightarrow> crawler" where
  "update_urls c links = c\<lparr>urls := urls c |\<union>| fset_of_list links\<rparr>"

text \<open>
  \<^verbatim>\<open>Crawler.find_articles\<close>. The condition \<^verbatim>\<open>page := fetch_page(url) is None\<close> binds
  \<^verbatim>\<open>page\<close> to the result of the comparison (the walrus operator takes the whole
  expression to its right), so \<^verbatim>\<open>page\<close> is a \<^verbatim>\<open>bool\<close>, and it is \<^verbatim>\<open>False\<close>
  whenever the loop body goes on to \<^verbatim>\<open>_process_seed(page)\<close>.
\<close>

fun Crawler_walk :: "web \<Rightarrow> string list \<Rightarrow> crawler \<Rightarrow> outcome \<times> crawler" where
  "Crawler_walk w [] c = (Return, c)"
| "Crawler_walk w (url # rest) c =
     (let page = (fetch_page w url = PNone) in
      if page then Crawler_walk w rest c
      else
        (case process_seed c (PBool page) of
           Inl e \<Rightarrow> (Raise e, c)
         | Inr links \<Rightarrow>
             let c' = update_urls c links in
             if int (fcard (urls c')) = max_articles c' then (Return, c')
             else Crawler_walk w rest c'))"

definition Crawler_get_search_urls :: "crawler \<Rightarrow> string list" where
  "Crawler_get_search_urls c = seed_urls c"

definition Crawler_find_articles :: "web \<Rightarrow> crawler \<Rightarrow> outcome \<times> crawler" where
  "Crawler_find_articles w c = Crawler_walk w (Crawler_get_search_urls c) c"

section \<open>CrawlerRecursive\<close>

text \<open>
  The file \<^verbatim>\<open>CRAWLER_STATE\<close>: absent, or the JSON object written by
  \<^verbatim>\<open>_save_state\<close>, with its \<^verbatim>\<open>urls\<close> and \<^verbatim>\<open>seed\<close> lists.
\<close>

record crawl_state =
  st_urls :: "string list"
  st_seed :: "string list"

type_synonym state_file = "crawl_state option"

definition save_state :: "crawler \<Rightarrow> state_file" where
  "save_state c = Some \<lparr>st_urls = sorted_list_of_fset (urls c), st_seed = seed_urls c\<rparr>"

definition load_state :: "crawler \<Rightarrow> state_file \<Rightarrow> crawler" where
  "load_state c file =
     (case file of
        None \<Rightarrow> c
      | Some status \<Rightarrow> c\<lparr>seed_urls := st_seed status, urls := fset_of_list (st_urls status)\<rparr>)"

text \<open>
  \<^verbatim>\<open>CrawlerRecursive.get_search_urls\<close>: \<^verbatim>\<open>self.seed_urls[0]\<close> raises \<^verbatim>\<open>IndexError\<close> on
  an empty list, \<^verbatim>\<open>next_page['href']\<close> raises \<^verbatim>\<open>TypeError\<close> when \<^verbatim>\<open>select_one\<close>
  found nothing (\<^verbatim>\<open>None\<close> is not subscriptable) and \<^verbatim>\<open>KeyError\<close> when the anchor has no
  \<^verbatim>\<open>href\<close>.
\<close>

definition get_search_urls :: "web \<Rightarrow> crawler \<Rightarrow> pyerr + string \<times> string" where
  "get_search_urls w c =
     (case seed_urls c of
        [] \<Rightarrow> Inl IndexError
      | seed # _ \<Rightarrow>
         (case BeautifulSoup (fetch_page w seed) of
            Inl e \<Rightarrow> Inl e
          | Inr soup \<Rightarrow>
             (case next_page soup of
                None \<Rightarrow> Inl TypeError
              | Some None \<Rightarrow> Inl KeyError
              | Some (Some href) \<Rightarrow> Inr (seed, href))))"

text \<open>
  One activation of \<^verbatim>\<open>CrawlerRecursive.find_articles\<close>, up to its last line: either
  the call ends there (\<open>Inl\<close>: it returns or raises, with the crawler object and the
  state file at that moment), or it has persisted its state and is about to call itself
  (\<open>Inr\<close>). The page of the seed is fetched twice, by \<^verbatim>\<open>get_search_urls\<close> and by the
  activation itself.
\<close>

definition find_articles_body ::
    "web \<Rightarrow> crawler \<Rightarrow> state_file \<Rightarrow> (outcome \<times> crawler \<times> state_file) + (crawler \<times> state_file)" where
  "find_articles_body w c file =
     (let c1 = load_state c file in
      case get_search_urls w c1 of
        Inl e \<Rightarrow> Inl (Raise e, c1, file)
      | Inr (seed, href) \<Rightarrow>
          let c2 = c1\<lparr>seed_urls := (seed_urls c1)[0 := href]\<rparr> in
          (case process_seed c2 (fetch_page w seed) of
             Inl e \<Rightarrow> Inl (Raise e, c2, file)
           | Inr links \<Rightarrow>
               let c3 = update_urls c2 links in
               if int (fcard (urls c3)) = max_articles c3 then Inl (Return, c3, file)
               else Inr (c3, save_state c3)))"

text \<open>
  \<^verbatim>\<open>CrawlerRecursive.find_articles\<close> calls itself once per listing page. The second
  argument is the number of nested activations that the interpreter's stack still allows
  (\<^verbatim>\<open>sys.getrecursionlimit()\<close> is 1000 frames unless changed): the call that exceeds it
  raises \<^verbatim>\<open>RecursionError\<close>. The result is how the outermost call ends, with the crawler
  object and the state file at that moment.
\<close>

fun find_articles :: "web \<Rightarrow> nat \<Rightarrow> crawler \<Rightarrow> state_file \<Rightarrow> outcome \<times> crawler \<times> state_file" where
  "find_articles w 0 c file = (Raise RecursionError, c, file)"
| "find_articles w (Suc depth) c file =
     (case find_articles_body w c file of
        Inl ended \<Rightarrow> ended
      | Inr (c', file') \<Rightarrow> find_articles w depth c' file')"

text \<open>
  The state file found on disk when the process is killed right after the \<open>k\<close>-th
  \<^verbatim>\<open>_save_state\<close> of a run; \<open>None\<close> when the run ends before it has saved \<open>k\<close> times.
\<close>

fun killed_after :: "web \<Rightarrow> nat \<Rightarrow> crawler \<Rightarrow> state_file \<Rightarrow> state_file option" where
  "killed_after w 0 c file = Some file"
| "killed_after w (Suc k) c file =
     (case find_articles_body w c file of
        Inl ended \<Rightarrow> None
      | Inr (c', file') \<Rightarrow> killed_after w k c' file')"

section \<open>ArticleParser\<close>

text \<open>
  The result of \<^verbatim>\<open>datetime.fromisoformat\<close>. The function itself belongs to the
  standard library and is a parameter of the model: it maps a date string to the
  \<^verbatim>\<open>datetime\<close> it denotes, \<open>None\<close> standing for the \<^verbatim>\<open>ValueError\<close> it raises on a
  string that is not in ISO format.
\<close>

datatype datetime = Datetime nat nat nat nat nat nat

type_synonym isoformat = "string \<Rightarrow> datetime option"

text \<open>
  Modelled from the spec: the class \<^verbatim>\<open>Article\<close> (\<^verbatim>\<open>article.py\<close>), which the module imports.
  An article is identified by its URL and sequence id, is created empty and is filled
  field by field; \<^verbatim>\<open>save_raw\<close> hands it to the article store.
\<close>

record article =
  art_url :: string
  art_id :: nat
  art_title :: string
  art_author :: string
  art_date :: "datetime option"
  art_topics :: "string list"
  art_text :: string

definition Article :: "string \<Rightarrow> nat \<Rightarrow> article" where
  "Article u i =
     \<lparr>art_url = u, art_id = i, art_title = [], art_author = [], art_date = None,
      art_topics = [], art_text = []\<rparr>"

record article_parser =
  full_url :: string
  article_id :: nat
  article :: article

definition ArticleParser :: "string \<Rightarrow> nat \<Rightarrow> article_parser" where
  "ArticleParser u i = \<lparr>full_url = u, article_id = i, article = Article u i\<rparr>"

text \<open>
  What the parse phase reads and writes outside the parser object: the file
  \<^verbatim>\<open>PARSER_STATE\<close> (absent, or its \<^verbatim>\<open>processed\<close> list), the requests sent by
  \<^verbatim>\<open>fetch_page\<close> so far, oldest first, and the articles handed to \<^verbatim>\<open>save_raw\<close>.
\<close>

record env =
  parser_state :: "string list option"
  requested :: "string list"
  raw :: "article list"

definition unify_date_format :: "isoformat \<Rightarrow> string \<Rightarrow> pyerr + datetime" where
  "unify_date_format fromisoformat date_str =
     (case fromisoformat date_str of None \<Rightarrow> Inl ValueError | Some d \<Rightarrow> Inr d)"

text \<open>\<^verbatim>\<open>sep.join(parts)\<close>\<close>

fun join :: "string \<Rightarrow> string list \<Rightarrow> string" where
  "join sep [] = []"
| "join sep [p] = p"
| "join sep (p # q # ps) = p @ sep @ join sep (q # ps)"

definition fill_article_with_text :: "article_parser \<Rightarrow> html \<Rightarrow> article_parser" where
  "fill_article_with_text p soup =
     p\<lparr>article := (article p)\<lparr>art_text := join [CHR 0x0A] (paragraphs soup)\<rparr>\<rparr>"

text \<open>
  \<^verbatim>\<open>_fill_article_with_meta_information\<close> assigns the fields one after the other, so an
  exception leaves the earlier ones assigned. \<^verbatim>\<open>select_one\<close> returns \<^verbatim>\<open>None\<close> when
  nothing matches, and \<^verbatim>\<open>None.text\<close> and \<^verbatim>\<open>None.attrs\<close> raise \<^verbatim>\<open>AttributeError\<close>.
\<close>

definition fill_article_with_meta_information ::
    "isoformat \<Rightarrow> article_parser \<Rightarrow> html \<Rightarrow> outcome \<times> article_parser" where
  "fill_article_with_meta_information fromisoformat p soup =
     (case h1 soup of
        None \<Rightarrow> (Raise AttributeError, p)
      | Some t \<Rightarrow>
          let p1 = p\<lparr>article := (article p)\<lparr>art_title := t\<rparr>\<rparr> in
          (case autor soup of
             None \<Rightarrow> (Raise AttributeError, p1)
           | Some a \<Rightarrow>
               let p2 = p1\<lparr>article := (article p1)\<lparr>art_author := a\<rparr>\<rparr> in
               (case entry_date soup of
                  None \<Rightarrow> (Raise AttributeError, p2)
                | Some None \<Rightarrow> (Raise KeyError, p2)
                | Some (Some date) \<Rightarrow>
                    (case unify_date_format fromisoformat date of
                       Inl e \<Rightarrow> (Raise e, p2)
                     | Inr d \<Rightarrow>
                         (Return,
                          p2\<lparr>article := (article p2)
                               \<lparr>art_date := Some d, art_topics := categories soup\<rparr>\<rparr>)))))"

definition ArticleParser_load_state :: "env \<Rightarrow> string fset" where
  "ArticleParser_load_state e =
     (case parser_state e of None \<Rightarrow> {||} | Some processed \<Rightarrow> fset_of_list processed)"

definition ArticleParser_save_state :: "article_parser \<Rightarrow> env \<Rightarrow> env" where
  "ArticleParser_save_state p e =
     (let processed = (case parser_state e of None \<Rightarrow> [] | Some l \<Rightarrow> l)
      in e\<lparr>parser_state := Some (processed @ [art_url (article p)])\<rparr>)"

definition parse :: "web \<Rightarrow> isoformat \<Rightarrow> article_parser \<Rightarrow> env \<Rightarrow> outcome \<times> article_parser \<times> env" where
  "parse w fromisoformat p e =
     (if full_url p |\<in>| ArticleParser_load_state e then (Return, p, e)
      else
        let e1 = e\<lparr>requested := requested e @ [full_url p]\<rparr>;
            page = fetch_page w (full_url p)
        in case BeautifulSoup page of
             Inl err \<Rightarrow> (Raise err, p, e1)
           | Inr soup \<Rightarrow>
               let p1 = fill_article_with_text p soup in
               (case fill_article_with_meta_information fromisoformat p1 soup of
                  (Raise err, p2) \<Rightarrow> (Raise err, p2, e1)
                | (Return, p2) \<Rightarrow> (Return, p2, ArticleParser_save_state p2 e1)))"

definition save :: "article_parser \<Rightarrow> env \<Rightarrow> env" where
  "save p e = e\<lparr>raw := raw e @ [article p]\<rparr>"

section \<open>The parse phase of main\<close>

text \<open>
  The loop \<^verbatim>\<open>for idx, article_url in enumerate(sorted(crawler.urls))\<close>. No exception is
  caught in it, so the first one ends the loop and \<^verbatim>\<open>main\<close>. The result lists the
  parser objects that were constructed, in order.
\<close>

fun parse_loop ::
    "web \<Rightarrow> isoformat \<Rightarrow> (nat \<times> string) list \<Rightarrow> env \<Rightarrow> outcome \<times> article_parser list \<times> env" where
  "parse_loop w fromisoformat [] e = (Return, [], e)"
| "parse_loop w fromisoformat ((idx, article_url) # rest) e =
     (let parser = ArticleParser article_url idx in
      case parse w fromisoformat parser e of
        (Raise err, parser', e') \<Rightarrow> (Raise err, [parser'], e')
      | (Return, parser', e') \<Rightarrow>
          (case parse_loop w fromisoformat rest (save parser' e') of
             (out, parsers, e'') \<Rightarrow> (out, parser' # parsers, e'')))"

definition parse_phase ::
    "web \<Rightarrow> isoformat \<Rightarrow> crawler \<Rightarrow> env \<Rightarrow> outcome \<times> article_parser list \<times> env" where
  "parse_phase w fromisoformat c e = parse_loop w fromisoformat (enumerate 0 (sorted_list_of_fset (urls c))) e"

section \<open>validate_config\<close>

text \<open>
  What \<^verbatim>\<open>json.load\<close> returns. An object is kept as the list of its members, a key
  occurring once; a float is kept as its literal.
\<close>

datatype json =
    JNull | JBool bool | JInt int | JFloat string | JStr string
  | JArr "json list" | JObj "(string \<times> json) list"

text \<open>
  \<^verbatim>\<open>config[key]\<close> with a string key: \<^verbatim>\<open>KeyError\<close> on a dict without the key,
  \<^verbatim>\<open>TypeError\<close> on a value that is not a dict.
\<close>

definition item :: "json \<Rightarrow> string \<Rightarrow> pyerr + json" where
  "item config k =
     (case config of
        JObj members \<Rightarrow> (case map_of members k of None \<Rightarrow> Inl KeyError | Some v \<Rightarrow> Inr v)
      | _ \<Rightarrow> Inl TypeError)"

text \<open>
  The elements that \<^verbatim>\<open>for x in value\<close> visits: those of a list, the characters of a
  string, the keys of a dict; any other value is not iterable.
\<close>

definition iter :: "json \<Rightarrow> pyerr + json list" where
  "iter v =
     (case v of
        JArr xs \<Rightarrow> Inr xs
      | JStr s \<Rightarrow> Inr (map (\<lambda>ch. JStr [ch]) s)
      | JObj members \<Rightarrow> Inr (map (\<lambda>(k, _). JStr k) members)
      | _ \<Rightarrow> Inl TypeError)"

text \<open>
  The pattern \<^verbatim>\<open>^(https?://)?[0-9a-z]+\.[-_0-9a-z]+\.[0-9a-z/]+\<close> under \<^verbatim>\<open>re.I\<close>,
  applied with \<^verbatim>\<open>match\<close>: some prefix of the string has to fit. None of the three
  character classes holds the dot that follows it, so each run is the longest one.
\<close>

definition alnum :: "char \<Rightarrow> bool" where
  "alnum ch \<longleftrightarrow>
     (CHR ''0'' \<le> ch \<and> ch \<le> CHR ''9'') \<or> (CHR ''a'' \<le> ch \<and> ch \<le> CHR ''z'')
     \<or> (CHR ''A'' \<le> ch \<and> ch \<le> CHR ''Z'')"

definition host_chars :: "(char \<Rightarrow> bool) \<Rightarrow> string \<Rightarrow> string option" where
  "host_chars cls s =
     (case dropWhile cls s of
        [] \<Rightarrow> None
      | ch # rest \<Rightarrow> if takeWhile cls s \<noteq> [] \<and> ch = CHR ''.'' then Some rest else None)"

definition host_path :: "string \<Rightarrow> bool" where
  "host_path s =
     (case host_chars alnum s of
        None \<Rightarrow> False
      | Some s1 \<Rightarrow>
         (case host_chars (\<lambda>ch. alnum ch \<or> ch = CHR ''-'' \<or> ch = CHR ''_'') s1 of
            None \<Rightarrow> False
          | Some s2 \<Rightarrow>
             (case s2 of [] \<Rightarrow> False | ch # _ \<Rightarrow> alnum ch \<or> ch = CHR ''/'')))"

fun scheme :: "string \<Rightarrow> string option" where
  "scheme (h # t # t' # p # s) =
     (if h \<in> {CHR ''h'', CHR ''H''} \<and> t \<in> {CHR ''t'', CHR ''T''} \<and> t' \<in> {CHR ''t'', CHR ''T''}
         \<and> p \<in> {CHR ''p'', CHR ''P''}
      then
        (case s of
           CHR '':'' # CHR ''/'' # CHR ''/'' # rest \<Rightarrow> Some rest
         | ch # CHR '':'' # CHR ''/'' # CHR ''/'' # rest \<Rightarrow>
             if ch \<in> {CHR ''s'', CHR ''S''} then Some rest else None
         | _ \<Rightarrow> None)
      else None)"
| "scheme _ = None"

definition url_check :: "string \<Rightarrow> bool" where
  "url_check s \<longleftrightarrow> (case scheme s of None \<Rightarrow> False | Some rest \<Rightarrow> host_path rest) \<or> host_path s"

text \<open>
  \<^verbatim>\<open>url_check.match(str(x))\<close>. For a value that is not a string, \<^verbatim>\<open>str(x)\<close> is a
  number with at most one dot, \<^verbatim>\<open>True\<close>, \<^verbatim>\<open>False\<close>, \<^verbatim>\<open>None\<close>, or a text that starts with
  a bracket or a brace: the pattern, which needs two dots after letters and digits,
  fits none of them.
\<close>

definition matches_url :: "json \<Rightarrow> bool" where
  "matches_url x = (case x of JStr s \<Rightarrow> url_check s | _ \<Rightarrow> False)"

text \<open>\<^verbatim>\<open>isinstance(x, int)\<close>: \<^verbatim>\<open>bool\<close> is a subclass of \<^verbatim>\<open>int\<close>, with \<^verbatim>\<open>True == 1\<close>.\<close>

definition is_int :: "json \<Rightarrow> bool" where
  "is_int x = (case x of JInt _ \<Rightarrow> True | JBool _ \<Rightarrow> True | _ \<Rightarrow> False)"

definition int_value :: "json \<Rightarrow> int" where
  "int_value x = (case x of JInt n \<Rightarrow> n | JBool b \<Rightarrow> (if b then 1 else 0) | _ \<Rightarrow> 0)"

text \<open>
  The body of \<^verbatim>\<open>validate_config\<close> after \<^verbatim>\<open>json.load\<close>, in the order of the source:
  the two lookups and the iteration, the three checks (the first that fails raises its
  error), the tuple. \<^verbatim>\<open>KeyError\<close> is caught and raised again as
  \<^verbatim>\<open>UnknownConfigError\<close>; any other exception leaves the function as it is.
\<close>

definition checked :: "json \<Rightarrow> pyerr + json \<times> json \<times> json" where
  "checked config =
     (case item config ''total_articles_to_find_and_parse'' of
        Inl e \<Rightarrow> Inl e
      | Inr total_num \<Rightarrow>
         (let is_correct_total_num = is_int total_num in
          case item config ''base_urls'' of
            Inl e \<Rightarrow> Inl e
          | Inr base_urls \<Rightarrow>
             (case iter base_urls of
                Inl e \<Rightarrow> Inl e
              | Inr xs \<Rightarrow>
                 (let is_correct_url = list_all matches_url xs;
                      is_num_not_oor =
                        (is_correct_total_num
                         \<and> 0 < int_value total_num \<and> int_value total_num \<le> 100000)
                  in if \<not> is_correct_url then Inl IncorrectURLError
                     else if \<not> is_correct_total_num then Inl IncorrectNumberOfArticlesError
                     else if \<not> is_num_not_oor then Inl NumberOfArticlesOutOfRangeError
                     else
                       (case item config ''max_number_articles_to_get_from_one_seed'' of
                          Inl e \<Rightarrow> Inl e
                        | Inr per_seed \<Rightarrow> Inr (base_urls, total_num, per_seed))))))"

definition validate_config :: "json \<Rightarrow> pyerr + json \<times> json \<times> json" where
  "validate_config config =
     (case checked config of
        Inl KeyError \<Rightarrow> Inl UnknownConfigError
      | r \<Rightarrow> r)"

section \<open>Example sites\<close>

text \<open>A page on which no selector finds anything, and a listing page.\<close>

definition blank :: html where
  "blank =
     \<lparr>news = [], next_page = None, paragraphs = [], h1 = None, autor = None,
      entry_date = None, categories = []\<rparr>"

definition listing :: "string list \<Rightarrow> string option option \<Rightarrow> html" where
  "listing links nxt = blank\<lparr>news := map Some links, next_page := nxt\<rparr>"

definition story :: "string \<Rightarrow> string \<Rightarrow> html" where
  "story headline day =
     blank\<lparr>paragraphs := [''One.'', ''Two.''], h1 := Some headline, autor := Some ''N. N.'',
           entry_date := Some (Some day), categories := [''news'']\<rparr>"

text \<open>
  A site of three listing pages, the last one without a link to a next page, and its
  articles; the article \<open>b2\<close> carries a date that is not in ISO format, and \<open>b3\<close> cannot be
  fetched.
\<close>

definition site :: web where
  "site u =
     (if u = ''s/1'' then Some (listing [''a1'', ''a2'', ''a3''] (Some (Some ''s/2'')))
      else if u = ''s/2'' then Some (listing [''b1'', ''b2'', ''b3''] (Some (Some ''s/3'')))
      else if u = ''s/3'' then Some (listing [''c1''] None)
      else if u \<in> {''a1'', ''a2'', ''a3'', ''b1'', ''c1''} then Some (story u ''2020-03-01'')
      else if u = ''b2'' then Some (story u ''1 March 2020'')
      else None)"

definition iso_dates :: isoformat where
  "iso_dates s = (if s = ''2020-03-01'' then Some (Datetime 2020 3 1 0 0 0) else None)"

definition no_env :: env where
  "no_env = \<lparr>parser_state = None, requested = [], raw = []\<rparr>"

text \<open>
  A site whose pagination does not end: every page links to one article of its own and
  to a next page.
\<close>

definition endless :: web where
  "endless u = Some (listing [u @ ''.html''] (Some (Some (u @ ''+''))))"

text \<open>A configuration file with one well-formed base URL.\<close>

definition demo_config :: "json \<Rightarrow> json \<Rightarrow> json" where
  "demo_config total_num per_seed =
     JObj [(''base_urls'', JArr [JStr ''https://www.example.com/x'']),
           (''total_articles_to_find_and_parse'', total_num),
           (''max_number_articles_to_get_from_one_seed'', per_seed)]"

text \<open>
  The parser object after \<^verbatim>\<open>parse\<close> has filled it from one of the well-formed article
  pages of the site, and the one left behind when the date of the page is refused: text,
  title and author are assigned, date and topics are not.
\<close>

definition filed :: "string \<Rightarrow> nat \<Rightarrow> article_parser" where
  "filed u i =
     \<lparr>full_url = u, article_id = i,
      article = \<lparr>art_url = u, art_id = i, art_title = u, art_author = ''N. N.'',
                 art_date = Some (Datetime 2020 3 1 0 0 0), art_topics = [''news''],
                 art_text = ''One.'' @ [CHR 0x0A] @ ''Two.''\<rparr>\<rparr>"

definition stuck :: "string \<Rightarrow> nat \<Rightarrow> article_parser" where
  "stuck u i =
     \<lparr>full_url = u, article_id = i,
      article = \<lparr>art_url = u, art_id = i, art_title = u, art_author = ''N. N.'',
                 art_date = None, art_topics = [],
                 art_text = ''One.'' @ [CHR 0x0A] @ ''Two.''\<rparr>\<rparr>"

section \<open>Configuration\<close>

lemma item_Inl:
  "item config k = Inr v \<Longrightarrow> item config k' = Inl e \<Longrightarrow> e = KeyError"
  by (auto simp: item_def split: json.splits option.splits)

lemma not_a_url: "\<not> url_check ''not a url''"
  by (simp add: url_check_def host_path_def host_chars_def alnum_def)

lemma example_url: "url_check ''https://www.example.com/x''"
  by (simp add: url_check_def host_path_def host_chars_def alnum_def)

lemma demo_config_items:
  "item (demo_config t p) ''base_urls'' = Inr (JArr [JStr ''https://www.example.com/x''])"
  "item (demo_config t p) ''total_articles_to_find_and_parse'' = Inr t"
  "item (demo_config t p) ''max_number_articles_to_get_from_one_seed'' = Inr p"
  by (simp_all add: demo_config_def item_def)

lemma demo_config_urls:
  "iter (JArr [JStr ''https://www.example.com/x'']) = Inr [JStr ''https://www.example.com/x'']"
  "list_all matches_url [JStr ''https://www.example.com/x'']"
  by (simp_all add: iter_def matches_url_def example_url)

lemma checked_urls_fail:
  assumes "item config ''total_articles_to_find_and_parse'' = Inr total_num"
    and "item config ''base_urls'' = Inr base_urls"
    and "iter base_urls = Inr xs" and "\<not> list_all matches_url xs"
  shows "validate_config config = Inl IncorrectURLError"
  using assms by (simp add: validate_config_def checked_def)

lemma checked_not_int:
  assumes "item config ''total_articles_to_find_and_parse'' = Inr total_num"
    and "item config ''base_urls'' = Inr base_urls"
    and "iter base_urls = Inr xs" and "list_all matches_url xs"
    and "\<not> is_int total_num"
  shows "validate_config config = Inl IncorrectNumberOfArticlesError"
  using assms by (simp add: validate_config_def checked_def)

lemma checked_out_of_range:
  assumes "item config ''total_articles_to_find_and_parse'' = Inr total_num"
    and "item config ''base_urls'' = Inr base_urls"
    and "iter base_urls = Inr xs" and "list_all matches_url xs"
    and "is_int total_num"
    and "\<not> (0 < int_value total_num \<and> int_value total_num \<le> 100000)"
  shows "validate_config config = Inl NumberOfArticlesOutOfRangeError"
  using assms by (auto simp add: validate_config_def checked_def)

lemma checked_pass:
  assumes "item config ''total_articles_to_find_and_parse'' = Inr total_num"
    and "item config ''base_urls'' = Inr base_urls"
    and "iter base_urls = Inr xs" and "list_all matches_url xs"
    and "is_int total_num" and "0 < int_value total_num" and "int_value total_num \<le> 100000"
  shows "validate_config config =
     (case item config ''max_number_articles_to_get_from_one_seed'' of
        Inl e \<Rightarrow> Inl UnknownConfigError
      | Inr per_seed \<Rightarrow> Inr (base_urls, total_num, per_seed))"
proof (cases "item config ''max_number_articles_to_get_from_one_seed''")
  case (Inl e)
  with assms(1) have "e = KeyError" by (rule_tac item_Inl)
  with Inl assms show ?thesis by (simp add: validate_config_def checked_def)
next
  case (Inr v)
  with assms show ?thesis by (simp add: validate_config_def checked_def)
qed

text \<open>
  C6. In a configuration that has both keys, \<^verbatim>\<open>validate_config\<close> raises
  \<^verbatim>\<open>IncorrectURLError\<close> when \<^verbatim>\<open>base_urls\<close> is \<^verbatim>\<open>["not a url"]\<close>; and when every base URL
  fits the pattern, it raises \<^verbatim>\<open>NumberOfArticlesOutOfRangeError\<close> for a total of 0 or
  100001, \<^verbatim>\<open>IncorrectNumberOfArticlesError\<close> for the string \<^verbatim>\<open>"5"\<close>, and for an integer
  total in (0, 100000] it returns the tuple of the base URLs, the total and the
  per-seed count found in the configuration.
\<close>

theorem validate_config_scenarios:
  assumes total: "item config ''total_articles_to_find_and_parse'' = Inr total_num"
    and base: "item config ''base_urls'' = Inr base_urls"
  shows "(base_urls = JArr [JStr ''not a url''] \<longrightarrow>
            validate_config config = Inl IncorrectURLError)
       \<and> ((\<exists>xs. iter base_urls = Inr xs \<and> list_all matches_url xs) \<longrightarrow>
            (total_num = JInt 0 \<or> total_num = JInt 100001 \<longrightarrow>
               validate_config config = Inl NumberOfArticlesOutOfRangeError)
          \<and> (total_num = JStr ''5'' \<longrightarrow>
               validate_config config = Inl IncorrectNumberOfArticlesError)
          \<and> (is_int total_num \<and> 0 < int_value total_num \<and> int_value total_num \<le> 100000 \<longrightarrow>
               (\<forall>per_seed.
                  item config ''max_number_articles_to_get_from_one_seed'' = Inr per_seed \<longrightarrow>
                  validate_config config = Inr (base_urls, total_num, per_seed))))"
proof (intro conjI impI allI)
  assume "base_urls = JArr [JStr ''not a url'']"
  then have "iter base_urls = Inr [JStr ''not a url'']"
    and "\<not> list_all matches_url [JStr ''not a url'']"
    by (simp_all add: iter_def matches_url_def not_a_url)
  with total base show "validate_config config = Inl IncorrectURLError"
    by (rule_tac checked_urls_fail)
next
  assume "\<exists>xs. iter base_urls = Inr xs \<and> list_all matches_url xs"
    and "total_num = JInt 0 \<or> total_num = JInt 100001"
  then show "validate_config config = Inl NumberOfArticlesOutOfRangeError"
    using total base by (auto intro!: checked_out_of_range simp: is_int_def int_value_def)
next
  assume "\<exists>xs. iter base_urls = Inr xs \<and> list_all matches_url xs"
    and "total_num = JStr ''5''"
  then show "validate_config config = Inl IncorrectNumberOfArticlesError"
    using total base by (auto intro!: checked_not_int simp: is_int_def)
next
  fix per_seed
  assume "\<exists>xs. iter base_urls = Inr xs \<and> list_all matches_url xs"
    and "is_int total_num \<and> 0 < int_value total_num \<and> int_value total_num \<le> 100000"
    and "item config ''max_number_articles_to_get_from_one_seed'' = Inr per_seed"
  then show "validate_config config = Inr (base_urls, total_num, per_seed)"
    using total base checked_pass [of config total_num base_urls] by auto
qed

theorem validate_config_scenarios_witness:
  "validate_config
     (JObj [(''base_urls'', JArr [JStr ''not a url'']),
            (''total_articles_to_find_and_parse'', JInt 5),
            (''max_number_articles_to_get_from_one_seed'', JInt 3)]) = Inl IncorrectURLError
   \<and> validate_config (demo_config (JInt 0) (JInt 3)) = Inl NumberOfArticlesOutOfRangeError
   \<and> validate_config (demo_config (JInt 100001) (JInt 3)) = Inl NumberOfArticlesOutOfRangeError
   \<and> validate_config (demo_config (JStr ''5'') (JInt 3)) = Inl IncorrectNumberOfArticlesError
   \<and> validate_config (demo_config (JInt 5) (JInt 3))
       = Inr (JArr [JStr ''https://www.example.com/x''], JInt 5, JInt 3)"
proof -
  let ?bad = "JObj [(''base_urls'', JArr [JStr ''not a url'']),
            (''total_articles_to_find_and_parse'', JInt 5),
            (''max_number_articles_to_get_from_one_seed'', JInt 3)]"
  have "item ?bad ''total_articles_to_find_and_parse'' = Inr (JInt 5)"
    and "item ?bad ''base_urls'' = Inr (JArr [JStr ''not a url''])"
    by (simp_all add: item_def)
  from validate_config_scenarios [OF this]
  have 1: "validate_config ?bad = Inl IncorrectURLError" by simp
  have ok: "\<exists>xs. iter (JArr [JStr ''https://www.example.com/x'']) = Inr xs
                \<and> list_all matches_url xs"
    using demo_config_urls by blast
  have 2: "validate_config (demo_config (JInt 0) (JInt 3)) = Inl NumberOfArticlesOutOfRangeError"
    using validate_config_scenarios [OF demo_config_items(2) demo_config_items(1),
        of "JInt 0" "JInt 3"] ok by simp
  have 3: "validate_config (demo_config (JInt 100001) (JInt 3))
             = Inl NumberOfArticlesOutOfRangeError"
    using validate_config_scenarios [OF demo_config_items(2) demo_config_items(1),
        of "JInt 100001" "JInt 3"] ok by simp
  have 4: "validate_config (demo_config (JStr ''5'') (JInt 3))
             = Inl IncorrectNumberOfArticlesError"
    using validate_config_scenarios [OF demo_config_items(2) demo_config_items(1),
        of "JStr ''5''" "JInt 3"] ok by simp
  have 5: "validate_config (demo_config (JInt 5) (JInt 3))
             = Inr (JArr [JStr ''https://www.example.com/x''], JInt 5, JInt 3)"
    using validate_config_scenarios [OF demo_config_items(2) demo_config_items(1),
        of "JInt 5" "JInt 3"] ok demo_config_items(3) [of "JInt 5" "JInt 3"]
    by (simp add: is_int_def int_value_def)
  from 1 2 3 4 5 show ?thesis by simp
qed

text \<open>
  C10. \<^verbatim>\<open>validate_config\<close> checks neither the type nor the range of
  \<^verbatim>\<open>max_number_articles_to_get_from_one_seed\<close>: when every base URL fits the pattern and
  the total is an integer in (0, 100000], it returns the value of that key as it is,
  whatever it is, and raises \<^verbatim>\<open>UnknownConfigError\<close> when the key is absent.
\<close>

theorem validate_config_per_seed_unchecked:
  assumes "item config ''total_articles_to_find_and_parse'' = Inr total_num"
    and "item config ''base_urls'' = Inr base_urls"
    and "iter base_urls = Inr xs" and "list_all matches_url xs"
    and "is_int total_num" and "0 < int_value total_num" and "int_value total_num \<le> 100000"
  shows "validate_config config =
     (case item config ''max_number_articles_to_get_from_one_seed'' of
        Inl e \<Rightarrow> Inl UnknownConfigError
      | Inr per_seed \<Rightarrow> Inr (base_urls, total_num, per_seed))"
  using assms by (rule checked_pass)

theorem validate_config_per_seed_unchecked_witness:
  "validate_config (demo_config (JInt 5) (JInt (- 3)))
     = Inr (JArr [JStr ''https://www.example.com/x''], JInt 5, JInt (- 3))
   \<and> validate_config (demo_config (JInt 5) (JInt 0))
     = Inr (JArr [JStr ''https://www.example.com/x''], JInt 5, JInt 0)
   \<and> validate_config (demo_config (JInt 100000) (JStr ''many''))
     = Inr (JArr [JStr ''https://www.example.com/x''], JInt 100000, JStr ''many'')
   \<and> validate_config
       (JObj [(''base_urls'', JArr [JStr ''https://www.example.com/x'']),
              (''total_articles_to_find_and_parse'', JInt 5)]) = Inl UnknownConfigError"
proof -
  have r: "is_int (JInt 5)" "0 < int_value (JInt 5)" "int_value (JInt 5) \<le> 100000"
    "is_int (JInt 100000)" "0 < int_value (JInt 100000)" "int_value (JInt 100000) \<le> 100000"
    by (simp_all add: is_int_def int_value_def)
  note d = demo_config_items(2) demo_config_items(1) demo_config_urls
  have 1: "validate_config (demo_config (JInt 5) (JInt (- 3)))
     = Inr (JArr [JStr ''https://www.example.com/x''], JInt 5, JInt (- 3))"
    using validate_config_per_seed_unchecked [OF d r(1-3), of "JInt (- 3)"]
    by (simp add: demo_config_items)
  have 2: "validate_config (demo_config (JInt 5) (JInt 0))
     = Inr (JArr [JStr ''https://www.example.com/x''], JInt 5, JInt 0)"
    using validate_config_per_seed_unchecked [OF d r(1-3), of "JInt 0"]
    by (simp add: demo_config_items)
  have 3: "validate_config (demo_config (JInt 100000) (JStr ''many''))
     = Inr (JArr [JStr ''https://www.example.com/x''], JInt 100000, JStr ''many'')"
    using validate_config_per_seed_unchecked [OF d r(4-6), of "JStr ''many''"]
    by (simp add: demo_config_items)
  let ?short = "JObj [(''base_urls'', JArr [JStr ''https://www.example.com/x'']),
              (''total_articles_to_find_and_parse'', JInt 5)]"
  have "item ?short ''total_articles_to_find_and_parse'' = Inr (JInt 5)"
    and "item ?short ''base_urls'' = Inr (JArr [JStr ''https://www.example.com/x''])"
    by (simp_all add: item_def)
  from validate_config_per_seed_unchecked [OF this demo_config_urls r(1-3)]
  have 4: "validate_config ?short = Inl UnknownConfigError"
    by (simp add: item_def)
  from 1 2 3 4 show ?thesis by simp
qed

section \<open>The seed walk\<close>

subsection \<open>Slices and the size of the discovered set\<close>

lemma length_slice_to: "length (slice_to xs n) \<le> length xs"
  by (simp add: slice_to_def)

lemma length_slice_to_bound: "0 \<le> n \<Longrightarrow> int (length (slice_to xs n)) \<le> n"
  by (simp add: slice_to_def)

lemma fcard_funion_list: "fcard (A |\<union>| fset_of_list xs) \<le> fcard A + length xs"
proof (induction xs arbitrary: A)
  case Nil
  then show ?case by simp
next
  case (Cons x xs)
  have "fcard (A |\<union>| fset_of_list (x # xs)) = fcard (finsert x A |\<union>| fset_of_list xs)"
    by simp
  also have "\<dots> \<le> fcard (finsert x A) + length xs" by (rule Cons.IH)
  also have "\<dots> \<le> fcard A + length (x # xs)" by (simp add: fcard_finsert_if)
  finally show ?case .
qed

lemma process_seed_Inr:
  assumes "process_seed c page = Inr links"
  obtains found where
    "links = slice_to (slice_to found (max_articles_per_seed c))
               (max_articles c - int (fcard (urls c)))"
  using assms by (auto simp: process_seed_def Let_def split: sum.splits)

lemma process_seed_cap:
  assumes "process_seed c page = Inr links" and "int (fcard (urls c)) \<le> max_articles c"
  shows "int (length links) \<le> max_articles c - int (fcard (urls c))"
  using assms by (auto elim!: process_seed_Inr intro: length_slice_to_bound)

lemma process_seed_per_seed:
  assumes "process_seed c page = Inr links" and "0 \<le> max_articles_per_seed c"
  shows "int (length links) \<le> max_articles_per_seed c"
proof -
  from assms(1) obtain found where
    l: "links = slice_to (slice_to found (max_articles_per_seed c))
               (max_articles c - int (fcard (urls c)))"
    by (rule process_seed_Inr)
  have "length links \<le> length (slice_to found (max_articles_per_seed c))"
    unfolding l by (rule length_slice_to)
  moreover have "int (length (slice_to found (max_articles_per_seed c))) \<le> max_articles_per_seed c"
    using assms(2) by (rule length_slice_to_bound)
  ultimately show ?thesis by linarith
qed

lemma update_urls_cap:
  assumes "process_seed c page = Inr links" and "int (fcard (urls c)) \<le> max_articles c"
  shows "int (fcard (urls (update_urls c links))) \<le> max_articles c"
proof -
  have "fcard (urls (update_urls c links)) \<le> fcard (urls c) + length links"
    by (simp add: update_urls_def fcard_funion_list)
  with process_seed_cap [OF assms] show ?thesis by linarith
qed

lemma update_urls_fields [simp]:
  "max_articles (update_urls c links) = max_articles c"
  "max_articles_per_seed (update_urls c links) = max_articles_per_seed c"
  "seed_urls (update_urls c links) = seed_urls c"
  by (simp_all add: update_urls_def)

lemma load_state_fields [simp]:
  "max_articles (load_state c file) = max_articles c"
  "max_articles_per_seed (load_state c file) = max_articles_per_seed c"
  by (simp_all add: load_state_def split: option.splits)

lemma load_state_save_state:
  assumes "max_articles c0 = max_articles c" and "max_articles_per_seed c0 = max_articles_per_seed c"
  shows "load_state c0 (save_state c) = c"
  using assms by (cases c; cases c0) (simp add: load_state_def save_state_def)

lemma load_state_idem: "load_state (load_state c file) file = load_state c file"
  by (cases "file") (simp_all add: load_state_def)

subsection \<open>One activation of the recursive walk\<close>

lemma find_articles_body_Inl:
  assumes "find_articles_body w c file = Inl (out, c', file')"
    and "int (fcard (urls (load_state c file))) \<le> max_articles c"
  shows "file' = file \<and> int (fcard (urls c')) \<le> max_articles c'"
proof -
  let ?c1 = "load_state c file"
  show ?thesis
  proof (cases "get_search_urls w ?c1")
    case (Inl e)
    with assms show ?thesis by (auto simp: find_articles_body_def)
  next
    case (Inr sh)
    obtain seed href where sh: "sh = (seed, href)" by (cases sh)
    let ?c2 = "?c1\<lparr>seed_urls := (seed_urls ?c1)[0 := href]\<rparr>"
    show ?thesis
    proof (cases "process_seed ?c2 (fetch_page w seed)")
      case (Inl e)
      with Inr sh assms show ?thesis by (auto simp: find_articles_body_def Let_def)
    next
      case links: (Inr links)
      have "int (fcard (urls ?c2)) \<le> max_articles ?c2" using assms(2) by simp
      with links have "int (fcard (urls (update_urls ?c2 links))) \<le> max_articles ?c2"
        by (rule update_urls_cap)
      with Inr sh links assms show ?thesis
        by (auto simp: find_articles_body_def Let_def split: if_splits)
    qed
  qed
qed

lemma find_articles_body_Inr:
  assumes "find_articles_body w c file = Inr (c', file')"
  shows "file' = save_state c' \<and> max_articles c' = max_articles c
         \<and> max_articles_per_seed c' = max_articles_per_seed c"
  using assms
  by (auto simp: find_articles_body_def Let_def split: sum.splits if_splits)

lemma find_articles_body_Inr_cap:
  assumes "find_articles_body w c file = Inr (c', file')"
    and "int (fcard (urls (load_state c file))) \<le> max_articles c"
  shows "int (fcard (urls c')) \<le> max_articles c'"
proof -
  let ?c1 = "load_state c file"
  from assms(1) obtain seed href links where
    l: "process_seed (?c1\<lparr>seed_urls := (seed_urls ?c1)[0 := href]\<rparr>) (fetch_page w seed) = Inr links"
    and c': "c' = update_urls (?c1\<lparr>seed_urls := (seed_urls ?c1)[0 := href]\<rparr>) links"
    by (auto simp: find_articles_body_def Let_def split: sum.splits if_splits)
  have "int (fcard (urls (?c1\<lparr>seed_urls := (seed_urls ?c1)[0 := href]\<rparr>)))
        \<le> max_articles (?c1\<lparr>seed_urls := (seed_urls ?c1)[0 := href]\<rparr>)"
    using assms(2) by simp
  with l have "int (fcard (urls c'))
        \<le> max_articles (?c1\<lparr>seed_urls := (seed_urls ?c1)[0 := href]\<rparr>)"
    unfolding c' by (rule update_urls_cap)
  then show ?thesis unfolding c' by simp
qed

lemma find_articles_body_cong:
  assumes "load_state c file = load_state c' file"
  shows "find_articles_body w c file = find_articles_body w c' file"
  using assms by (simp add: find_articles_body_def)

lemma find_articles_cap:
  assumes "int (fcard (urls c)) \<le> max_articles c"
    and "int (fcard (urls (load_state c file))) \<le> max_articles c"
  shows "int (fcard (urls (fst (snd (find_articles w depth c file)))))
           \<le> max_articles (fst (snd (find_articles w depth c file)))
         \<and> max_articles (fst (snd (find_articles w depth c file))) = max_articles c"
  using assms
proof (induction depth arbitrary: c "file")
  case 0
  then show ?case by simp
next
  case (Suc depth)
  show ?case
  proof (cases "find_articles_body w c file")
    case (Inl ended)
    obtain out c' file' where e: "ended = (out, c', file')" by (cases ended)
    have "max_articles c' = max_articles c"
      using Inl e by (auto simp: find_articles_body_def Let_def split: sum.splits if_splits)
    with find_articles_body_Inl [OF Inl [unfolded e] Suc.prems(2)] Inl e
    show ?thesis by simp
  next
    case (Inr next_call)
    obtain c' file' where n: "next_call = (c', file')" by (cases next_call)
    note b = Inr [unfolded n]
    from find_articles_body_Inr [OF b]
    have f: "file' = save_state c'" and m: "max_articles c' = max_articles c" by simp_all
    have c': "int (fcard (urls c')) \<le> max_articles c'"
      using b Suc.prems(2) by (rule find_articles_body_Inr_cap)
    have "load_state c' file' = c'" unfolding f by (rule load_state_save_state) simp_all
    with c' have l: "int (fcard (urls (load_state c' file'))) \<le> max_articles c'" by simp
    from Suc.IH [OF c' l] b m show ?thesis by simp
  qed
qed

subsection \<open>The walk over the configured seeds\<close>

lemma process_seed_bool: "process_seed c (PBool b) = Inl TypeError"
  by (simp add: process_seed_def BeautifulSoup_def)

lemma Crawler_walk_fetched:
  assumes "w url = Some body"
  shows "Crawler_walk w (url # rest) c = (Raise TypeError, c)"
  using assms by (simp add: fetch_page_def process_seed_bool)

lemma Crawler_walk_absent:
  assumes "w url = None"
  shows "Crawler_walk w (url # rest) c = Crawler_walk w rest c"
  using assms by (simp add: fetch_page_def)

lemma Crawler_walk_urls: "urls (snd (Crawler_walk w us c)) = urls c"
proof (induction us)
  case Nil
  then show ?case by simp
next
  case (Cons url us)
  show ?case
  proof (cases "w url")
    case None
    then have "Crawler_walk w (url # us) c = Crawler_walk w us c"
      by (rule Crawler_walk_absent)
    with Cons show ?thesis by (simp only:)
  next
    case (Some body)
    then have "Crawler_walk w (url # us) c = (Raise TypeError, c)"
      by (rule Crawler_walk_fetched)
    then show ?thesis by (simp only: snd_conv)
  qed
qed

text \<open>
  C4. On a seed whose page is fetched, \<^verbatim>\<open>Crawler.find_articles\<close> passes \<^verbatim>\<open>False\<close>, not
  the page, to \<^verbatim>\<open>_process_seed\<close>: on the site below the page of \<open>s/1\<close> lists three
  articles, and the walk ends in a \<^verbatim>\<open>TypeError\<close> with an empty discovered set, where the
  claim has the three links merged into it.
\<close>

theorem Crawler_find_articles_loses_fetched_page:
  "site ''s/1'' = Some (listing [''a1'', ''a2'', ''a3''] (Some (Some ''s/2'')))
   \<and> Crawler_find_articles site (Crawler [''s/1''] 5 3)
       = (Raise TypeError, Crawler [''s/1''] 5 3)
   \<and> urls (Crawler [''s/1''] 5 3) = {||}"
proof -
  have s: "site ''s/1'' = Some (listing [''a1'', ''a2'', ''a3''] (Some (Some ''s/2'')))"
    by (simp add: site_def)
  have "Crawler_walk site [''s/1''] (Crawler [''s/1''] 5 3)
          = (Raise TypeError, Crawler [''s/1''] 5 3)"
    using s by (rule Crawler_walk_fetched)
  with s show ?thesis
    by (simp add: Crawler_find_articles_def Crawler_get_search_urls_def Crawler_def)
qed

subsection \<open>The end of the pagination\<close>

lemma get_search_urls_no_next:
  assumes "seed_urls c = seed # rest" and "w seed = Some body" and "next_page body = None"
  shows "get_search_urls w c = Inl TypeError"
  using assms by (simp add: get_search_urls_def fetch_page_def BeautifulSoup_def)

lemma find_articles_no_next:
  assumes "seed_urls (load_state c file) = seed # rest" and "w seed = Some body"
    and "next_page body = None"
  shows "find_articles w (Suc depth) c file = (Raise TypeError, load_state c file, file)"
  using assms get_search_urls_no_next [of "load_state c file" seed rest w body]
  by (simp add: find_articles_body_def)

text \<open>
  C5. On a listing page without a next-page control, \<^verbatim>\<open>CrawlerRecursive.find_articles\<close>
  does not return: \<^verbatim>\<open>get_search_urls\<close> subscripts the \<^verbatim>\<open>None\<close> that \<^verbatim>\<open>select_one\<close>
  returned, and the \<^verbatim>\<open>TypeError\<close> leaves \<^verbatim>\<open>find_articles\<close> before the links of that page
  are read. Here the walk starts on the last page \<open>s/3\<close> of the site.
\<close>

theorem find_articles_raises_on_last_page:
  "site ''s/3'' = Some (listing [''c1''] None)
   \<and> find_articles site 1000 (Crawler [''s/3''] 5 3) None
       = (Raise TypeError, Crawler [''s/3''] 5 3, None)"
proof -
  have s: "site ''s/3'' = Some (listing [''c1''] None)"
    by (simp add: site_def)
  have "find_articles site (Suc 999) (Crawler [''s/3''] 5 3) None
     = (Raise TypeError, load_state (Crawler [''s/3''] 5 3) None, None)"
    by (rule find_articles_no_next [where seed = "''s/3''" and rest = "[]"
          and body = "listing [''c1''] None"])
       (simp_all add: load_state_def Crawler_def site_def listing_def blank_def)
  with s show ?thesis by (simp add: load_state_def)
qed

subsection \<open>Reaching the cap\<close>

text \<open>
  C8. When the links of a page bring the discovered set to exactly \<^verbatim>\<open>max_articles\<close>,
  \<^verbatim>\<open>CrawlerRecursive.find_articles\<close> returns without calling \<^verbatim>\<open>_save_state\<close>: the state
  file is the one the call found.
\<close>

theorem find_articles_at_cap_keeps_file:
  assumes "get_search_urls w (load_state c file) = Inr (seed, href)"
    and "c2 = (load_state c file)\<lparr>seed_urls := (seed_urls (load_state c file))[0 := href]\<rparr>"
    and "process_seed c2 (fetch_page w seed) = Inr links"
    and "int (fcard (urls c2 |\<union>| fset_of_list links)) = max_articles c2"
  shows "find_articles w (Suc depth) c file = (Return, update_urls c2 links, file)"
  using assms by (simp add: find_articles_body_def update_urls_def Let_def)

theorem find_articles_at_cap_keeps_file_witness:
  "find_articles site (Suc 0) (Crawler [''s/1''] 5 3)
       (Some \<lparr>st_urls = [''a1'', ''a2'', ''a3''], st_seed = [''s/2'']\<rparr>)
     = (Return,
        \<lparr>seed_urls = [''s/3''], max_articles = 5, max_articles_per_seed = 3,
         urls = {|''a1'', ''a2'', ''a3'', ''b1'', ''b2''|}\<rparr>,
        Some \<lparr>st_urls = [''a1'', ''a2'', ''a3''], st_seed = [''s/2'']\<rparr>)"
proof -
  let ?file = "Some \<lparr>st_urls = [''a1'', ''a2'', ''a3''], st_seed = [''s/2'']\<rparr>"
  let ?c = "Crawler [''s/1''] 5 3"
  let ?c2 = "\<lparr>seed_urls = [''s/3''], max_articles = 5, max_articles_per_seed = 3,
         urls = {|''a1'', ''a2'', ''a3''|}\<rparr>"
  have l: "load_state ?c ?file =
      \<lparr>seed_urls = [''s/2''], max_articles = 5, max_articles_per_seed = 3,
       urls = {|''a1'', ''a2'', ''a3''|}\<rparr>"
    by (simp add: load_state_def Crawler_def)
  have 1: "get_search_urls site (load_state ?c ?file) = Inr (''s/2'', ''s/3'')"
    by (simp add: l get_search_urls_def fetch_page_def BeautifulSoup_def site_def
        listing_def blank_def)
  have 2: "?c2 = (load_state ?c ?file)
      \<lparr>seed_urls := (seed_urls (load_state ?c ?file))[0 := ''s/3'']\<rparr>"
    by (simp add: l)
  have 3: "process_seed ?c2 (fetch_page site ''s/2'') = Inr [''b1'', ''b2'']"
    by (simp add: process_seed_def fetch_page_def BeautifulSoup_def site_def listing_def
        blank_def extract_url_def fcard_finsert_if fcard_fempty slice_to_def)
  have 4: "int (fcard (urls ?c2 |\<union>| fset_of_list [''b1'', ''b2''])) = max_articles ?c2"
    by (simp add: fcard_finsert_if fcard_fempty)
  show ?thesis
    using find_articles_at_cap_keeps_file [OF 1 2 3 4, of 0] by (auto simp add: update_urls_def)
qed

subsection \<open>The caps on the discovered set\<close>

lemma site_walk:
  "find_articles site (Suc (Suc 0)) (Crawler [''s/1''] 5 3) None
    = (Return,
        \<lparr>seed_urls = [''s/3''], max_articles = 5, max_articles_per_seed = 3,
         urls = {|''a1'', ''a2'', ''a3'', ''b1'', ''b2''|}\<rparr>,
        Some \<lparr>st_urls = [''a1'', ''a2'', ''a3''], st_seed = [''s/2'']\<rparr>)"
  by (simp add: find_articles_body_def load_state_def save_state_def Crawler_def
      get_search_urls_def fetch_page_def BeautifulSoup_def site_def listing_def blank_def
      process_seed_def extract_url_def fcard_finsert_if fcard_fempty slice_to_def
      update_urls_def sorted_list_of_fset.rep_eq) auto

lemma site_first_save:
  "killed_after site (Suc 0) (Crawler [''s/1''] 5 3) None
     = Some (Some \<lparr>st_urls = [''a1'', ''a2'', ''a3''], st_seed = [''s/2'']\<rparr>)"
  by (simp add: find_articles_body_def load_state_def save_state_def Crawler_def
      get_search_urls_def fetch_page_def BeautifulSoup_def site_def listing_def blank_def
      process_seed_def extract_url_def fcard_finsert_if fcard_fempty slice_to_def
      update_urls_def sorted_list_of_fset.rep_eq)

text \<open>
  C1. A discovered set that is within \<^verbatim>\<open>max_articles\<close> stays within it: after the links
  that \<^verbatim>\<open>_process_seed\<close> returns for any page are merged, at the end of
  \<^verbatim>\<open>Crawler.find_articles\<close>, and at every depth of \<^verbatim>\<open>CrawlerRecursive.find_articles\<close>
  (so after each of its steps), whose first step loads the set from the state file. When
  \<^verbatim>\<open>max_articles_per_seed\<close> is not negative, \<^verbatim>\<open>_process_seed\<close> returns at most
  \<open>min (max_articles_per_seed, max_articles - |urls|)\<close> links.
\<close>

theorem discovered_urls_within_caps:
  assumes "int (fcard (urls c)) \<le> max_articles c"
    and "int (fcard (urls (load_state c file))) \<le> max_articles c"
  shows "(\<forall>page links. process_seed c page = Inr links \<longrightarrow>
            int (fcard (urls (update_urls c links))) \<le> max_articles c
          \<and> (0 \<le> max_articles_per_seed c \<longrightarrow>
               int (length links)
                 \<le> min (max_articles_per_seed c) (max_articles c - int (fcard (urls c)))))
       \<and> int (fcard (urls (snd (Crawler_find_articles w c)))) \<le> max_articles c
       \<and> (\<forall>depth.
            int (fcard (urls (fst (snd (find_articles w depth c file))))) \<le> max_articles c)"
proof (intro conjI allI impI)
  fix page links
  assume p: "process_seed c page = Inr links"
  from p assms(1) show "int (fcard (urls (update_urls c links))) \<le> max_articles c"
    by (rule update_urls_cap)
  assume "0 \<le> max_articles_per_seed c"
  with p have "int (length links) \<le> max_articles_per_seed c"
    by (rule process_seed_per_seed)
  moreover from p assms(1)
  have "int (length links) \<le> max_articles c - int (fcard (urls c))"
    by (rule process_seed_cap)
  ultimately show "int (length links)
      \<le> min (max_articles_per_seed c) (max_articles c - int (fcard (urls c)))"
    by simp
next
  show "int (fcard (urls (snd (Crawler_find_articles w c)))) \<le> max_articles c"
    using assms by (simp add: Crawler_find_articles_def Crawler_walk_urls)
next
  fix depth
  show "int (fcard (urls (fst (snd (find_articles w depth c file))))) \<le> max_articles c"
    using find_articles_cap [OF assms, of w depth] by simp
qed

text \<open>
  The bound on what one page contributes needs the condition on \<^verbatim>\<open>max_articles_per_seed\<close>,
  which \<^verbatim>\<open>validate_config\<close> does not check: for \<open>-1\<close> the slice drops the last link
  of the page, and two links are more than \<open>min (-1, 5)\<close>.
\<close>

theorem per_seed_cap_counterexample:
  "process_seed (Crawler [''s/1''] 5 (- 1)) (PStr (listing [''a1'', ''a2'', ''a3''] None))
     = Inr [''a1'', ''a2'']
   \<and> \<not> int (length [''a1'', ''a2''])
         \<le> min (max_articles_per_seed (Crawler [''s/1''] 5 (- 1)))
             (max_articles (Crawler [''s/1''] 5 (- 1))
              - int (fcard (urls (Crawler [''s/1''] 5 (- 1)))))"
  by (simp add: process_seed_def BeautifulSoup_def extract_url_def listing_def blank_def
      Crawler_def slice_to_def fcard_fempty)

theorem discovered_urls_within_caps_witness:
  "int (fcard (urls (Crawler [''s/1''] 5 3))) \<le> max_articles (Crawler [''s/1''] 5 3)
   \<and> process_seed (Crawler [''s/1''] 5 3) (PStr (listing [''a1'', ''a2'', ''a3''] None))
       = Inr [''a1'', ''a2'', ''a3'']
   \<and> 0 \<le> max_articles_per_seed (Crawler [''s/1''] 5 3)
   \<and> int (length [''a1'', ''a2'', ''a3'']) \<le> min 3 (5 - int (fcard {||}))
   \<and> int (fcard (urls (update_urls (Crawler [''s/1''] 5 3) [''a1'', ''a2'', ''a3'']))) \<le> 5
   \<and> int (fcard (urls (snd (Crawler_find_articles site (Crawler [''s/1''] 5 3))))) \<le> 5
   \<and> int (fcard (urls (fst (snd (find_articles site (Suc (Suc 0)) (Crawler [''s/1''] 5 3) None))))) \<le> 5"
proof -
  let ?c = "Crawler [''s/1''] 5 3"
  have h: "int (fcard (urls ?c)) \<le> max_articles ?c"
    by (simp add: Crawler_def fcard_fempty)
  have p: "process_seed ?c (PStr (listing [''a1'', ''a2'', ''a3''] None))
       = Inr [''a1'', ''a2'', ''a3'']"
    by (simp add: process_seed_def BeautifulSoup_def extract_url_def listing_def blank_def
        Crawler_def slice_to_def fcard_fempty)
  have k: "0 \<le> max_articles_per_seed ?c" by (simp add: Crawler_def)
  have l: "int (fcard (urls (load_state ?c None))) \<le> max_articles ?c"
    using h by (simp add: load_state_def)
  note t = discovered_urls_within_caps [OF h l, of site]
  from t p k have "int (fcard (urls (update_urls ?c [''a1'', ''a2'', ''a3'']))) \<le> max_articles ?c
      \<and> int (length [''a1'', ''a2'', ''a3''])
          \<le> min (max_articles_per_seed ?c) (max_articles ?c - int (fcard (urls ?c)))"
    by blast
  moreover from t have "int (fcard (urls (snd (Crawler_find_articles site ?c)))) \<le> max_articles ?c"
    and "int (fcard (urls (fst (snd (find_articles site (Suc (Suc 0)) ?c None))))) \<le> max_articles ?c"
    by blast+
  ultimately show ?thesis
    using h p k by (simp add: Crawler_def fcard_fempty del: find_articles.simps)
qed

subsection \<open>Restarting the walk\<close>

lemma find_articles_deeper:
  assumes "fst (find_articles w depth c file) \<noteq> Raise RecursionError"
  shows "find_articles w (depth + n) c file = find_articles w depth c file"
  using assms
proof (induction depth arbitrary: c "file")
  case 0
  then show ?case by simp
next
  case (Suc depth)
  show ?case
  proof (cases "find_articles_body w c file")
    case (Inl ended)
    then show ?thesis by simp
  next
    case (Inr next_call)
    obtain c' file' where n: "next_call = (c', file')" by (cases next_call)
    with Inr Suc.prems have "fst (find_articles w depth c' file') \<noteq> Raise RecursionError"
      by simp
    then have "find_articles w (depth + n) c' file' = find_articles w depth c' file'"
      by (rule Suc.IH)
    with Inr n show ?thesis by simp
  qed
qed

lemma load_state_Some:
  assumes "max_articles c0 = max_articles c" and "max_articles_per_seed c0 = max_articles_per_seed c"
  shows "load_state c0 (Some st) = load_state c (Some st)"
  using assms by (cases c; cases c0) (simp add: load_state_def)

lemma restart_from_kill:
  assumes "killed_after w k c file = Some file'"
    and "max_articles c0 = max_articles c"
    and "max_articles_per_seed c0 = max_articles_per_seed c"
    and "k = 0 \<longrightarrow> load_state c0 file = load_state c file"
    and "fst (find_articles w depth c file) \<noteq> Raise RecursionError"
  shows "find_articles w depth c0 file' = find_articles w depth c file"
  using assms
proof (induction k arbitrary: c "file" depth)
  case 0
  from "0.prems"(5) obtain d where d: "depth = Suc d" by (cases depth) auto
  from "0.prems"(1) have "file' = file" by simp
  moreover from "0.prems"(4) have "load_state c0 file = load_state c file" by simp
  then have "find_articles_body w c0 file = find_articles_body w c file"
    by (rule find_articles_body_cong)
  ultimately show ?case unfolding d by simp
next
  case (Suc k)
  from Suc.prems(5) obtain d where d: "depth = Suc d" by (cases depth) auto
  from Suc.prems(1) obtain c1 file1 where
    b: "find_articles_body w c file = Inr (c1, file1)"
    and k: "killed_after w k c1 file1 = Some file'"
    by (auto split: sum.splits)
  from find_articles_body_Inr [OF b]
  have f1: "file1 = save_state c1" and m: "max_articles c1 = max_articles c"
    and p: "max_articles_per_seed c1 = max_articles_per_seed c"
    by simp_all
  have run: "find_articles w depth c file = find_articles w d c1 file1"
    unfolding d using b by simp
  with Suc.prems(5) have fin: "fst (find_articles w d c1 file1) \<noteq> Raise RecursionError"
    by simp
  have "load_state c0 file1 = load_state c1 file1"
    unfolding f1 save_state_def using Suc.prems(2,3) m p by (intro load_state_Some) simp_all
  then have "k = 0 \<longrightarrow> load_state c0 file1 = load_state c1 file1" by simp
  with k Suc.prems(2,3) m p fin
  have r: "find_articles w d c0 file' = find_articles w d c1 file1"
    by (intro Suc.IH) simp_all
  with fin have "fst (find_articles w d c0 file') \<noteq> Raise RecursionError" by simp
  then have "find_articles w (d + 1) c0 file' = find_articles w d c0 file'"
    by (rule find_articles_deeper)
  with r run show ?case unfolding d by simp
qed

text \<open>
  The run that was killed after its \<open>k\<close>-th save had \<open>k\<close> activations on the stack; the
  restarted run starts with an empty one.
\<close>

lemma find_articles_after_kill:
  assumes "killed_after w (Suc k) c file = Some file'"
    and "max_articles c0 = max_articles c"
    and "max_articles_per_seed c0 = max_articles_per_seed c"
  shows "find_articles w (Suc k + Suc depth) c file = find_articles w (Suc depth) c0 file'"
  using assms
proof (induction k arbitrary: c "file")
  case 0
  from "0.prems"(1) obtain c1 where
    b: "find_articles_body w c file = Inr (c1, file')"
    by (auto split: sum.splits)
  from find_articles_body_Inr [OF b]
  have f1: "file' = save_state c1" and m: "max_articles c1 = max_articles c"
    and p: "max_articles_per_seed c1 = max_articles_per_seed c"
    by simp_all
  have "load_state c0 file' = load_state c1 file'"
    unfolding f1 save_state_def using "0.prems"(2,3) m p by (intro load_state_Some) simp_all
  then have "find_articles_body w c0 file' = find_articles_body w c1 file'"
    by (rule find_articles_body_cong)
  with b show ?case by simp
next
  case (Suc k)
  from Suc.prems(1) obtain c1 file1 where
    b: "find_articles_body w c file = Inr (c1, file1)"
    and k: "killed_after w (Suc k) c1 file1 = Some file'"
    by (auto split: sum.splits)
  from find_articles_body_Inr [OF b]
  have m: "max_articles c1 = max_articles c"
    and p: "max_articles_per_seed c1 = max_articles_per_seed c"
    by simp_all
  from k Suc.prems(2,3) m p
  have "find_articles w (Suc k + Suc depth) c1 file1 = find_articles w (Suc depth) c0 file'"
    by (intro Suc.IH) simp_all
  with b show ?case by simp
qed

text \<open>
  C2. A process is killed right after a \<^verbatim>\<open>_save_state\<close> and started again with the same
  configuration and the same pages. When the uninterrupted run ends within the recursion
  depth (it returns at the cap, or an exception other than \<^verbatim>\<open>RecursionError\<close> leaves it),
  the restarted run ends in the same way, with the same discovered set, seed list and
  state file.
\<close>

theorem restart_resumes_walk:
  assumes "killed_after w k c file = Some file'"
    and "fst (find_articles w depth c file) \<noteq> Raise RecursionError"
  shows "find_articles w depth c file' = find_articles w depth c file"
  using assms(1) _ _ _ assms(2) by (rule restart_from_kill) simp_all

theorem restart_resumes_walk_witness:
  "killed_after site (Suc 0) (Crawler [''s/1''] 5 3) None
     = Some (Some \<lparr>st_urls = [''a1'', ''a2'', ''a3''], st_seed = [''s/2'']\<rparr>)
   \<and> fst (find_articles site (Suc (Suc 0)) (Crawler [''s/1''] 5 3) None) \<noteq> Raise RecursionError
   \<and> find_articles site (Suc (Suc 0)) (Crawler [''s/1''] 5 3)
        (Some \<lparr>st_urls = [''a1'', ''a2'', ''a3''], st_seed = [''s/2'']\<rparr>)
     = (Return,
        \<lparr>seed_urls = [''s/3''], max_articles = 5, max_articles_per_seed = 3,
         urls = {|''a1'', ''a2'', ''a3'', ''b1'', ''b2''|}\<rparr>,
        Some \<lparr>st_urls = [''a1'', ''a2'', ''a3''], st_seed = [''s/2'']\<rparr>)"
proof -
  have f: "fst (find_articles site (Suc (Suc 0)) (Crawler [''s/1''] 5 3) None)
      \<noteq> Raise RecursionError"
    unfolding site_walk by simp
  from restart_resumes_walk [OF site_first_save f] site_walk site_first_save f
  show ?thesis by (simp del: find_articles.simps killed_after.simps)
qed

text \<open>
  Without that condition the two runs differ. On the endless site, with one link taken
  from each page and the cap of 100000 out of reach, the uninterrupted run is stopped by
  the depth of its recursion and the restarted run gets one page further, at every depth.
\<close>

lemma find_articles_cong:
  assumes "load_state c file = load_state c' file" and "0 < depth"
  shows "find_articles w depth c file = find_articles w depth c' file"
proof -
  from assms(2) obtain d where "depth = Suc d" by (cases depth) auto
  moreover from assms(1) have "find_articles_body w c file = find_articles_body w c' file"
    by (rule find_articles_body_cong)
  ultimately show ?thesis by simp
qed

lemma slice_to_single: "1 \<le> n \<Longrightarrow> slice_to [x] n = [x]"
  by (cases "nat n") (auto simp: slice_to_def)

lemma endless_body:
  assumes "load_state c file = c" and "seed_urls c = u # rest"
    and "1 \<le> max_articles_per_seed c" and "int (fcard (urls c)) + 1 < max_articles c"
    and "c' = c\<lparr>seed_urls := (u @ ''+'') # rest, urls := finsert (u @ ''.html'') (urls c)\<rparr>"
  shows "find_articles_body endless c file = Inr (c', save_state c')"
proof -
  have g: "get_search_urls endless c = Inr (u, u @ ''+'')"
    using assms(2)
    by (simp add: get_search_urls_def fetch_page_def endless_def BeautifulSoup_def
        listing_def blank_def)
  let ?c2 = "c\<lparr>seed_urls := (seed_urls c)[0 := u @ ''+'']\<rparr>"
  have "1 \<le> max_articles c - int (fcard (urls c))" using assms(4) by simp
  then have p: "process_seed ?c2 (fetch_page endless u) = Inr [u @ ''.html'']"
    using assms(3)
    by (simp add: process_seed_def fetch_page_def endless_def BeautifulSoup_def
        listing_def blank_def extract_url_def slice_to_single)
  have "fcard (finsert (u @ ''.html'') (urls c)) \<le> fcard (urls c) + 1"
    by (simp add: fcard_finsert_if)
  with assms(4) have n: "int (fcard (finsert (u @ ''.html'') (urls c))) \<noteq> max_articles c"
    by linarith
  have u: "update_urls ?c2 [u @ ''.html''] = c'"
    using assms(2,5) by (simp add: update_urls_def)
  show ?thesis
    using g p n u assms(1,5) by (simp add: find_articles_body_def Let_def)
qed

lemma endless_urls:
  assumes "load_state c file = c" and "seed_urls c = u # rest"
    and "1 \<le> max_articles_per_seed c" and "int (fcard (urls c)) + int d < max_articles c"
  shows "fset (urls (fst (snd (find_articles endless d c file))))
           = fset (urls c) \<union> (\<lambda>i. u @ replicate i CHR ''+'' @ ''.html'') ` {..<d}"
  using assms
proof (induction d arbitrary: c "file" u)
  case 0
  then show ?case by simp
next
  case (Suc d)
  define c' where "c' = c\<lparr>seed_urls := (u @ ''+'') # rest, urls := finsert (u @ ''.html'') (urls c)\<rparr>"
  from Suc.prems(4) have "int (fcard (urls c)) + 1 < max_articles c" by simp
  with Suc.prems(1-3) have b: "find_articles_body endless c file = Inr (c', save_state c')"
    using c'_def by (rule endless_body)
  have 1: "load_state c' (save_state c') = c'" by (rule load_state_save_state) simp_all
  have 2: "seed_urls c' = (u @ ''+'') # rest" by (simp add: c'_def)
  have 3: "1 \<le> max_articles_per_seed c'" using Suc.prems(3) by (simp add: c'_def)
  have "fcard (urls c') \<le> fcard (urls c) + 1" by (simp add: c'_def fcard_finsert_if)
  with Suc.prems(4) have 4: "int (fcard (urls c')) + int d < max_articles c'"
    by (simp add: c'_def)
  have "fset (urls (fst (snd (find_articles endless d c' (save_state c')))))
      = fset (urls c') \<union> (\<lambda>i. (u @ ''+'') @ replicate i CHR ''+'' @ ''.html'') ` {..<d}"
    using 1 2 3 4 by (rule Suc.IH)
  also have "\<dots> = fset (urls c) \<union> (\<lambda>i. u @ replicate i CHR ''+'' @ ''.html'') ` {..<Suc d}"
    by (simp add: c'_def lessThan_Suc_eq_insert_0 image_image)
  finally show ?case using b by simp
qed

lemma endless_first_save:
  "killed_after endless 1 (Crawler [''x.org/news''] 100000 1) None
     = Some (Some \<lparr>st_urls = [''x.org/news.html''], st_seed = [''x.org/news+'']\<rparr>)"
proof -
  let ?c = "Crawler [''x.org/news''] 100000 1"
  let ?c' = "?c\<lparr>seed_urls := [''x.org/news+''], urls := {|''x.org/news.html''|}\<rparr>"
  have "find_articles_body endless ?c None = Inr (?c', save_state ?c')"
    by (rule endless_body [where u = "''x.org/news''" and rest = "[]"])
       (simp_all add: load_state_def Crawler_def fcard_fempty)
  then have "killed_after endless (Suc 0) ?c None = Some (save_state ?c')"
    by simp
  then show ?thesis
    by (simp add: save_state_def sorted_list_of_fset.rep_eq)
qed


lemma endless_restart_differs:
  assumes "0 < depth" and "int depth + 1 < 100000"
  shows "urls (fst (snd (find_articles endless depth (Crawler [''x.org/news''] 100000 1)
                      (Some \<lparr>st_urls = [''x.org/news.html''], st_seed = [''x.org/news+'']\<rparr>))))
     \<noteq> urls (fst (snd (find_articles endless depth (Crawler [''x.org/news''] 100000 1) None)))"
proof -
  let ?c = "Crawler [''x.org/news''] 100000 1"
  let ?c1 = "?c\<lparr>seed_urls := [''x.org/news+''], urls := {|''x.org/news.html''|}\<rparr>"
  let ?f1 = "Some \<lparr>st_urls = [''x.org/news.html''], st_seed = [''x.org/news+'']\<rparr>"
  let ?e = "''x.org/news+'' @ replicate (depth - 1) CHR ''+'' @ ''.html''"
  have f1: "?f1 = save_state ?c1"
    by (simp add: save_state_def sorted_list_of_fset.rep_eq Crawler_def)
  have l1: "load_state ?c1 ?f1 = ?c1"
    unfolding f1 by (rule load_state_save_state) simp_all
  have l: "load_state ?c ?f1 = ?c1"
    by (simp add: load_state_def Crawler_def)
  have "find_articles endless depth ?c ?f1 = find_articles endless depth ?c1 ?f1"
    using assms(1) by (intro find_articles_cong) (simp_all add: l l1)
  moreover have "fset (urls (fst (snd (find_articles endless depth ?c1 ?f1))))
      = fset (urls ?c1) \<union> (\<lambda>i. ''x.org/news+'' @ replicate i CHR ''+'' @ ''.html'') ` {..<depth}"
    using l1 assms(2)
    by (intro endless_urls [where rest = "[]"])
       (simp_all add: Crawler_def fcard_finsert_if fcard_fempty)
  moreover have "?e \<in> (\<lambda>i. ''x.org/news+'' @ replicate i CHR ''+'' @ ''.html'') ` {..<depth}"
    using assms(1) by (intro image_eqI [where x = "depth - 1"]) simp_all
  ultimately have in1: "?e \<in> fset (urls (fst (snd (find_articles endless depth ?c ?f1))))"
    by (simp only: Un_iff simp_thms)
  have "fset (urls (fst (snd (find_articles endless depth ?c None))))
      = fset (urls ?c) \<union> (\<lambda>i. ''x.org/news'' @ replicate i CHR ''+'' @ ''.html'') ` {..<depth}"
    using assms(2)
    by (intro endless_urls [where rest = "[]"])
       (simp_all add: Crawler_def load_state_def fcard_fempty)
  also have "fset (urls ?c) = {}" by (simp add: Crawler_def)
  finally have u0: "fset (urls (fst (snd (find_articles endless depth ?c None))))
      = (\<lambda>i. ''x.org/news'' @ replicate i CHR ''+'' @ ''.html'') ` {..<depth}"
    by (simp only: Un_empty_left)
  have "?e \<notin> (\<lambda>i. ''x.org/news'' @ replicate i CHR ''+'' @ ''.html'') ` {..<depth}"
  proof
    assume "?e \<in> (\<lambda>i. ''x.org/news'' @ replicate i CHR ''+'' @ ''.html'') ` {..<depth}"
    then obtain i where i: "i < depth"
      and e: "?e = ''x.org/news'' @ replicate i CHR ''+'' @ ''.html''"
      by (elim imageE) (simp only: lessThan_iff)
    from e have "length ?e = length (''x.org/news'' @ replicate i CHR ''+'' @ ''.html'')"
      by (rule arg_cong)
    then have "depth = i" using assms(1) by simp
    with i show False by simp
  qed
  then have "?e \<notin> fset (urls (fst (snd (find_articles endless depth ?c None))))"
    by (simp only: u0 not_False_eq_True)
  with in1 show ?thesis by (metis (no_types))
qed

text \<open>
  The claim as stated fails at the default limit of the interpreter: the process is
  killed after the first save, and the set the restarted run ends with is not the one
  the uninterrupted run ends with.
\<close>

theorem restart_differs_at_recursion_limit:
  "killed_after endless 1 (Crawler [''x.org/news''] 100000 1) None
     = Some (Some \<lparr>st_urls = [''x.org/news.html''], st_seed = [''x.org/news+'']\<rparr>)
   \<and> urls (fst (snd (find_articles endless 1000 (Crawler [''x.org/news''] 100000 1)
                      (Some \<lparr>st_urls = [''x.org/news.html''], st_seed = [''x.org/news+'']\<rparr>))))
     \<noteq> urls (fst (snd (find_articles endless 1000 (Crawler [''x.org/news''] 100000 1) None)))"
proof -
  have "urls (fst (snd (find_articles endless 1000 (Crawler [''x.org/news''] 100000 1)
                      (Some \<lparr>st_urls = [''x.org/news.html''], st_seed = [''x.org/news+'']\<rparr>))))
     \<noteq> urls (fst (snd (find_articles endless 1000 (Crawler [''x.org/news''] 100000 1) None)))"
    by (rule endless_restart_differs) simp_all
  with endless_first_save show ?thesis by (simp only: simp_thms)
qed

section \<open>Parsing the articles\<close>

subsection \<open>One call of parse\<close>

lemma parse_processed:
  assumes "full_url p |\<in>| ArticleParser_load_state e"
  shows "parse w fromisoformat p e = (Return, p, e)"
  using assms by (simp add: parse_def)

lemma fill_article_with_meta_information_ids:
  assumes "fill_article_with_meta_information fromisoformat p soup = (out, p')"
  shows "full_url p' = full_url p \<and> article_id p' = article_id p
         \<and> art_url (article p') = art_url (article p) \<and> art_id (article p') = art_id (article p)"
  using assms
  by (auto simp: fill_article_with_meta_information_def Let_def
      split: option.splits sum.splits)

lemma parse_ids:
  assumes "parse w fromisoformat p e = (out, p', e')"
  shows "full_url p' = full_url p \<and> article_id p' = article_id p
         \<and> art_url (article p') = art_url (article p) \<and> art_id (article p') = art_id (article p)"
proof (cases "full_url p |\<in>| ArticleParser_load_state e")
  case True
  with assms show ?thesis by (simp add: parse_def)
next
  case False
  show ?thesis
  proof (cases "BeautifulSoup (fetch_page w (full_url p))")
    case (Inl err)
    with False assms show ?thesis by (auto simp: parse_def Let_def)
  next
    case (Inr soup)
    obtain o2 p2 where
      m: "fill_article_with_meta_information fromisoformat (fill_article_with_text p soup) soup
            = (o2, p2)"
      by (cases "fill_article_with_meta_information fromisoformat
                   (fill_article_with_text p soup) soup")
    from fill_article_with_meta_information_ids [OF m]
    have "full_url p2 = full_url p \<and> article_id p2 = article_id p
         \<and> art_url (article p2) = art_url (article p) \<and> art_id (article p2) = art_id (article p)"
      by (simp add: fill_article_with_text_def)
    moreover from False Inr m assms have "p' = p2"
      by (cases o2) (auto simp: parse_def Let_def)
    ultimately show ?thesis by simp
  qed
qed

lemma parse_Return:
  assumes "parse w fromisoformat p e = (Return, p', e')"
  shows "(full_url p |\<in>| ArticleParser_load_state e \<and> e' = e)
       \<or> (full_url p |\<notin>| ArticleParser_load_state e
           \<and> requested e' = requested e @ [full_url p]
           \<and> art_url (article p) |\<in>| ArticleParser_load_state e')"
proof (cases "full_url p |\<in>| ArticleParser_load_state e")
  case True
  with assms show ?thesis by (simp add: parse_def)
next
  case False
  from assms False obtain p2 where
    "e' = ArticleParser_save_state p2 (e\<lparr>requested := requested e @ [full_url p]\<rparr>)"
    and "p' = p2"
    by (auto simp: parse_def Let_def split: sum.splits prod.splits outcome.splits)
  moreover from assms have "art_url (article p') = art_url (article p)"
    by (simp add: parse_ids)
  ultimately show ?thesis
    using False
    by (auto simp: ArticleParser_save_state_def ArticleParser_load_state_def Let_def
        split: option.splits)
qed

lemmas parse_defs =
  parse_def fetch_page_def BeautifulSoup_def Let_def fill_article_with_text_def
  fill_article_with_meta_information_def unify_date_format_def ArticleParser_def Article_def
  ArticleParser_load_state_def ArticleParser_save_state_def site_def story_def blank_def
  iso_dates_def filed_def stuck_def save_def

lemma parse_story:
  assumes "u \<in> {''a1'', ''a2'', ''a3'', ''b1'', ''c1''}" and "u \<notin> set seen"
  shows "parse site iso_dates (ArticleParser u i)
           \<lparr>parser_state = Some seen, requested = rs, raw = as\<rparr>
         = (Return, filed u i,
            \<lparr>parser_state = Some (seen @ [u]), requested = rs @ [u], raw = as\<rparr>)"
  using assms by (auto simp add: parse_defs fset_of_list_elem)

lemma parse_story_first:
  assumes "u \<in> {''a1'', ''a2'', ''a3'', ''b1'', ''c1''}"
  shows "parse site iso_dates (ArticleParser u i) no_env
         = (Return, filed u i, \<lparr>parser_state = Some [u], requested = [u], raw = []\<rparr>)"
  using assms by (auto simp add: parse_defs no_env_def)

text \<open>
  C3. For a URL that the parser state file already records, \<^verbatim>\<open>parse\<close> returns at once:
  nothing is requested and neither the parser object nor the file changes. When a call of
  \<^verbatim>\<open>parse\<close> on a new parser object returns, it has requested the page at most once, and
  a further call for the same URL, on that object or on a new one, is such a no-op.
\<close>

theorem parse_idempotent_after_success:
  "(u |\<in>| ArticleParser_load_state e \<longrightarrow>
      parse w fromisoformat (ArticleParser u i) e = (Return, ArticleParser u i, e))
   \<and> (parse w fromisoformat (ArticleParser u i) e = (Return, p', e') \<longrightarrow>
        parse w fromisoformat p' e' = (Return, p', e')
      \<and> parse w fromisoformat (ArticleParser u j) e' = (Return, ArticleParser u j, e')
      \<and> (requested e' = requested e \<or> requested e' = requested e @ [u]))"
proof (intro conjI impI)
  assume "u |\<in>| ArticleParser_load_state e"
  then show "parse w fromisoformat (ArticleParser u i) e = (Return, ArticleParser u i, e)"
    by (simp add: parse_processed ArticleParser_def)
next
  assume a: "parse w fromisoformat (ArticleParser u i) e = (Return, p', e')"
  have u: "full_url (ArticleParser u i) = u" "art_url (article (ArticleParser u i)) = u"
    by (simp_all add: ArticleParser_def Article_def)
  from parse_Return [OF a] u have in': "u |\<in>| ArticleParser_load_state e'"
    and r: "requested e' = requested e \<or> requested e' = requested e @ [u]"
    by auto
  from parse_ids [OF a] u have "full_url p' = u" by simp
  with in' show "parse w fromisoformat p' e' = (Return, p', e')"
    by (simp add: parse_processed)
  from in' show "parse w fromisoformat (ArticleParser u j) e' = (Return, ArticleParser u j, e')"
    by (simp add: parse_processed ArticleParser_def)
  from r show "requested e' = requested e \<or> requested e' = requested e @ [u]" .
qed

theorem parse_idempotent_after_success_witness:
  "parse site iso_dates (ArticleParser ''a1'' 0) no_env
     = (Return, filed ''a1'' 0, \<lparr>parser_state = Some [''a1''], requested = [''a1''], raw = []\<rparr>)
   \<and> ''a1'' |\<in>| ArticleParser_load_state \<lparr>parser_state = Some [''a1''], requested = [''a1''], raw = []\<rparr>
   \<and> parse site iso_dates (filed ''a1'' 0)
        \<lparr>parser_state = Some [''a1''], requested = [''a1''], raw = []\<rparr>
     = (Return, filed ''a1'' 0, \<lparr>parser_state = Some [''a1''], requested = [''a1''], raw = []\<rparr>)
   \<and> parse site iso_dates (ArticleParser ''a1'' 7)
        \<lparr>parser_state = Some [''a1''], requested = [''a1''], raw = []\<rparr>
     = (Return, ArticleParser ''a1'' 7,
        \<lparr>parser_state = Some [''a1''], requested = [''a1''], raw = []\<rparr>)"
proof -
  let ?e' = "\<lparr>parser_state = Some [''a1''], requested = [''a1''], raw = []\<rparr>"
  have 1: "parse site iso_dates (ArticleParser ''a1'' 0) no_env = (Return, filed ''a1'' 0, ?e')"
    by (rule parse_story_first) simp
  have 2: "''a1'' |\<in>| ArticleParser_load_state ?e'"
    by (simp add: ArticleParser_load_state_def)
  from parse_idempotent_after_success [of "''a1''" no_env site iso_dates 0 "filed ''a1'' 0" ?e' 7]
    parse_idempotent_after_success [of "''a1''" ?e' site iso_dates 7] 1 2
  show ?thesis by simp
qed

text \<open>
  The condition that the first call returns cannot be dropped. \<^verbatim>\<open>parse\<close> records the URL
  in its last line, so a call that raises has recorded nothing, and the next call does all
  of the work again: the page of \<open>b2\<close>, whose date is refused, is requested and read twice.
\<close>

theorem parse_twice_counterexample:
  "parse site iso_dates (ArticleParser ''b2'' 0) no_env
     = (Raise ValueError, stuck ''b2'' 0, no_env\<lparr>requested := [''b2'']\<rparr>)
   \<and> parse site iso_dates (stuck ''b2'' 0) (no_env\<lparr>requested := [''b2'']\<rparr>)
     = (Raise ValueError, stuck ''b2'' 0, no_env\<lparr>requested := [''b2'', ''b2'']\<rparr>)"
  by (simp add: parse_defs no_env_def)

subsection \<open>The loop over the discovered URLs\<close>

lemma parse_bad_date:
  assumes "full_url p |\<notin>| ArticleParser_load_state e" and "w (full_url p) = Some body"
    and "h1 body = Some t" and "autor body = Some a" and "entry_date body = Some (Some d)"
    and "fromisoformat d = None"
  shows "\<exists>p'. parse w fromisoformat p e
           = (Raise ValueError, p', e\<lparr>requested := requested e @ [full_url p]\<rparr>)"
  using assms
  by (simp add: parse_def fetch_page_def BeautifulSoup_def Let_def
      fill_article_with_meta_information_def unify_date_format_def)

lemma parse_loop_append:
  "parse_loop w fromisoformat (xs @ ys) e =
     (case parse_loop w fromisoformat xs e of
        (Return, ps, e1) \<Rightarrow>
          (case parse_loop w fromisoformat ys e1 of (out, ps', e2) \<Rightarrow> (out, ps @ ps', e2))
      | (Raise err, ps, e1) \<Rightarrow> (Raise err, ps, e1))"
proof (induction xs arbitrary: e)
  case Nil
  then show ?case by (simp split: prod.splits)
next
  case (Cons x xs)
  obtain idx u where x: "x = (idx, u)" by (cases x)
  obtain out p' e' where p: "parse w fromisoformat (ArticleParser u idx) e = (out, p', e')"
    by (cases "parse w fromisoformat (ArticleParser u idx) e")
  show ?case
  proof (cases out)
    case Return
    with x p Cons.IH [of "save p' e'"] show ?thesis
      by (simp split: prod.splits outcome.splits)
  next
    case (Raise err)
    with x p show ?thesis by simp
  qed
qed

text \<open>
  C7. A publication date that \<^verbatim>\<open>datetime.fromisoformat\<close> refuses ends the parse phase:
  when the loop reaches a URL that is not yet recorded, whose page has a title, an author
  and such a date, the \<^verbatim>\<open>ValueError\<close> leaves \<^verbatim>\<open>parse\<close> and the loop. The page has been
  requested, the parser state file and the stored articles are as they were before that
  URL, and none of the URLs after it is requested.
\<close>

theorem bad_date_ends_parse_phase:
  assumes "parse_loop w fromisoformat before e = (Return, parsers, e1)"
    and "u |\<notin>| ArticleParser_load_state e1" and "w u = Some body"
    and "h1 body = Some t" and "autor body = Some a" and "entry_date body = Some (Some d)"
    and "fromisoformat d = None"
  shows "\<exists>p'. parse_loop w fromisoformat (before @ (i, u) # rest) e
           = (Raise ValueError, parsers @ [p'], e1\<lparr>requested := requested e1 @ [u]\<rparr>)"
proof -
  have "full_url (ArticleParser u i) = u" by (simp add: ArticleParser_def)
  with assms(2-7) obtain p' where
    "parse w fromisoformat (ArticleParser u i) e1
       = (Raise ValueError, p', e1\<lparr>requested := requested e1 @ [u]\<rparr>)"
    using parse_bad_date [of "ArticleParser u i" e1 w body t a d fromisoformat] by auto
  then have "parse_loop w fromisoformat ((i, u) # rest) e1
       = (Raise ValueError, [p'], e1\<lparr>requested := requested e1 @ [u]\<rparr>)"
    by simp
  with assms(1) show ?thesis by (simp add: parse_loop_append)
qed

theorem bad_date_ends_parse_phase_witness:
  "\<exists>p'. parse_loop site iso_dates ([(0, ''a1'')] @ (1, ''b2'') # [(2, ''c1'')]) no_env
     = (Raise ValueError, [filed ''a1'' 0] @ [p'],
        \<lparr>parser_state = Some [''a1''], requested = [''a1''],
         raw = [article (filed ''a1'' 0)]\<rparr>
        \<lparr>requested := [''a1''] @ [''b2'']\<rparr>)"
proof -
  let ?e1 = "\<lparr>parser_state = Some [''a1''], requested = [''a1''],
         raw = [article (filed ''a1'' 0)]\<rparr>"
  have 1: "parse_loop site iso_dates [(0, ''a1'')] no_env = (Return, [filed ''a1'' 0], ?e1)"
    by (simp add: parse_story_first save_def)
  have 2: "''b2'' |\<notin>| ArticleParser_load_state ?e1"
    by (simp add: ArticleParser_load_state_def)
  have 3: "site ''b2'' = Some (story ''b2'' ''1 March 2020'')"
    by (simp add: site_def)
  have 4: "h1 (story ''b2'' ''1 March 2020'') = Some ''b2''"
    "autor (story ''b2'' ''1 March 2020'') = Some ''N. N.''"
    "entry_date (story ''b2'' ''1 March 2020'') = Some (Some ''1 March 2020'')"
    "iso_dates ''1 March 2020'' = None"
    by (simp_all add: story_def blank_def iso_dates_def)
  from bad_date_ends_parse_phase [OF 1 2 3 4, of 1 "[(2, ''c1'')]"]
  show ?thesis by simp
qed

text \<open>
  So the claim that the phase goes on with the remaining URLs fails: of the three
  discovered URLs, \<open>a1\<close> is parsed and stored, \<open>b2\<close> raises, and \<open>c1\<close> is never requested.
\<close>

theorem bad_date_counterexample:
  "parse_phase site iso_dates ((Crawler [''s/1''] 5 3)\<lparr>urls := {|''a1'', ''b2'', ''c1''|}\<rparr>) no_env
     = (Raise ValueError, [filed ''a1'' 0, stuck ''b2'' 1],
        \<lparr>parser_state = Some [''a1''], requested = [''a1'', ''b2''],
         raw = [article (filed ''a1'' 0)]\<rparr>)
   \<and> ''c1'' \<notin> set [''a1'', ''b2'']"
  by (simp add: parse_phase_def sorted_list_of_fset.rep_eq enumerate_simps parse_story_first
      parse_defs no_env_def)

lemma parse_loop_ids:
  assumes "parse_loop w fromisoformat xs e = (out, parsers, e')"
  shows "map (\<lambda>p. (article_id p, full_url p)) parsers = take (length parsers) xs
       \<and> (\<forall>p \<in> set parsers. art_id (article p) = article_id p \<and> art_url (article p) = full_url p)
       \<and> (out = Return \<longrightarrow> length parsers = length xs)"
  using assms
proof (induction xs arbitrary: e out parsers e')
  case Nil
  then show ?case by simp
next
  case (Cons x xs)
  obtain idx u where x: "x = (idx, u)" by (cases x)
  obtain o1 p1 e1 where p: "parse w fromisoformat (ArticleParser u idx) e = (o1, p1, e1)"
    by (cases "parse w fromisoformat (ArticleParser u idx) e")
  from parse_ids [OF p]
  have ids: "article_id p1 = idx" "full_url p1 = u" "art_id (article p1) = idx"
    "art_url (article p1) = u"
    by (simp_all add: ArticleParser_def Article_def)
  show ?case
  proof (cases o1)
    case (Raise err)
    with x p Cons.prems have "parsers = [p1]" "out = Raise err" by simp_all
    with x ids show ?thesis by simp
  next
    case Return
    obtain o2 ps e2 where r: "parse_loop w fromisoformat xs (save p1 e1) = (o2, ps, e2)"
      by (cases "parse_loop w fromisoformat xs (save p1 e1)")
    with Return x p Cons.prems have "parsers = p1 # ps" "out = o2" by simp_all
    with Cons.IH [OF r] x ids show ?thesis by simp
  qed
qed

text \<open>
  C9. The parser objects of the parse phase are constructed along the sorted list of the
  discovered set: the \<open>i\<close>-th of them, and its article, has the sequence id \<open>i\<close> and the
  \<open>i\<close>-th URL of that list, which is sorted, without repetition, and holds exactly the
  discovered URLs. When the phase returns, there is one for each discovered URL.
\<close>

theorem parse_phase_ids_follow_sorted_urls:
  assumes "parse_phase w fromisoformat c e = (out, parsers, e')"
  shows "(\<forall>i < length parsers.
            article_id (parsers ! i) = i
          \<and> full_url (parsers ! i) = sorted_list_of_fset (urls c) ! i
          \<and> art_id (article (parsers ! i)) = i
          \<and> art_url (article (parsers ! i)) = sorted_list_of_fset (urls c) ! i)
       \<and> length parsers \<le> fcard (urls c)
       \<and> (out = Return \<longrightarrow> length parsers = fcard (urls c))
       \<and> sorted (sorted_list_of_fset (urls c)) \<and> distinct (sorted_list_of_fset (urls c))
       \<and> fset_of_list (sorted_list_of_fset (urls c)) = urls c"
proof -
  let ?xs = "enumerate 0 (sorted_list_of_fset (urls c))"
  have len: "length (sorted_list_of_fset (urls c)) = fcard (urls c)"
    by (simp add: sorted_list_of_fset.rep_eq fcard.rep_eq)
  from assms have "parse_loop w fromisoformat ?xs e = (out, parsers, e')"
    by (simp add: parse_phase_def)
  from parse_loop_ids [OF this]
  have m: "map (\<lambda>p. (article_id p, full_url p)) parsers = take (length parsers) ?xs"
    and a: "\<forall>p \<in> set parsers. art_id (article p) = article_id p \<and> art_url (article p) = full_url p"
    and r: "out = Return \<longrightarrow> length parsers = length ?xs"
    by simp_all
  from m have "length parsers = length (take (length parsers) ?xs)"
    by (metis length_map)
  then have le: "length parsers \<le> fcard (urls c)" using len by simp
  have nth: "article_id (parsers ! i) = i
      \<and> full_url (parsers ! i) = sorted_list_of_fset (urls c) ! i" if "i < length parsers" for i
  proof -
    have "(article_id (parsers ! i), full_url (parsers ! i))
        = map (\<lambda>p. (article_id p, full_url p)) parsers ! i"
      using that by simp
    also have "\<dots> = take (length parsers) ?xs ! i" by (simp only: m)
    also have "\<dots> = (i, sorted_list_of_fset (urls c) ! i)"
      using that le len by (simp add: nth_enumerate_eq)
    finally show ?thesis by simp
  qed
  have "sorted (sorted_list_of_fset (urls c))" "distinct (sorted_list_of_fset (urls c))"
    by (simp_all add: sorted_list_of_fset.rep_eq)
  with nth a le r len show ?thesis by auto
qed

theorem parse_phase_ids_follow_sorted_urls_witness:
  "parse_phase site iso_dates ((Crawler [''s/1''] 5 3)\<lparr>urls := {|''c1'', ''a1''|}\<rparr>) no_env
     = (Return, [filed ''a1'' 0, filed ''c1'' 1],
        \<lparr>parser_state = Some [''a1'', ''c1''], requested = [''a1'', ''c1''],
         raw = [article (filed ''a1'' 0), article (filed ''c1'' 1)]\<rparr>)
   \<and> sorted_list_of_fset {|''c1'', ''a1''|} = [''a1'', ''c1'']
   \<and> article_id ([filed ''a1'' 0, filed ''c1'' 1] ! 0) = 0
   \<and> full_url ([filed ''a1'' 0, filed ''c1'' 1] ! 0) = [''a1'', ''c1''] ! 0
   \<and> article_id ([filed ''a1'' 0, filed ''c1'' 1] ! 1) = 1
   \<and> full_url ([filed ''a1'' 0, filed ''c1'' 1] ! 1) = [''a1'', ''c1''] ! 1
   \<and> length [filed ''a1'' 0, filed ''c1'' 1] = fcard {|''c1'', ''a1''|}"
proof -
  let ?c = "(Crawler [''s/1''] 5 3)\<lparr>urls := {|''c1'', ''a1''|}\<rparr>"
  let ?e' = "\<lparr>parser_state = Some [''a1'', ''c1''], requested = [''a1'', ''c1''],
         raw = [article (filed ''a1'' 0), article (filed ''c1'' 1)]\<rparr>"
  have s: "sorted_list_of_fset {|''c1'', ''a1''|} = [''a1'', ''c1'']"
    by (simp add: sorted_list_of_fset.rep_eq)
  have r: "parse_phase site iso_dates ?c no_env
     = (Return, [filed ''a1'' 0, filed ''c1'' 1], ?e')"
    by (simp add: parse_phase_def s enumerate_simps parse_story_first parse_story save_def)
  from parse_phase_ids_follow_sorted_urls [OF r] s
  have "(\<forall>i < 2. article_id ([filed ''a1'' 0, filed ''c1'' 1] ! i) = i
          \<and> full_url ([filed ''a1'' 0, filed ''c1'' 1] ! i) = [''a1'', ''c1''] ! i)
       \<and> length [filed ''a1'' 0, filed ''c1'' 1] = fcard {|''c1'', ''a1''|}"
    by simp
  then have "article_id ([filed ''a1'' 0, filed ''c1'' 1] ! 0) = 0
      \<and> full_url ([filed ''a1'' 0, filed ''c1'' 1] ! 0) = [''a1'', ''c1''] ! 0
      \<and> article_id ([filed ''a1'' 0, filed ''c1'' 1] ! 1) = 1
      \<and> full_url ([filed ''a1'' 0, filed ''c1'' 1] ! 1) = [''a1'', ''c1''] ! 1
      \<and> length [filed ''a1'' 0, filed ''c1'' 1] = fcard {|''c1'', ''a1''|}"
    by (simp add: filed_def)
  with r s show ?thesis by (simp only: simp_thms)
qed

end
